theory Spec2Isabelle
  imports Main
begin

section \<open>The symbol search widget of the package documentation pages\<close>

text \<open>
  The development embeds the island \<^verbatim>\<open>LocalSymbolSearch\<close> in its two forms:
  \<^item> the \<^emph>\<open>flat\<close> variant, \<^verbatim>\<open>frontend/routes/package/(_islands)/LocalSymbolSearch.tsx\<close>,
    which filters the namespace items of the parsed document in place and keeps a list
    of result records with a selection index;
  \<^item> the \<^emph>\<open>sectioned\<close> variant (the second copy of the island), which walks the
    elements of class \<^verbatim>\<open>section\<close>, filters the namespace items below each of them and
    hides a section whose items are all hidden. Its \<^verbatim>\<open>onKeyUp\<close> has an empty body.

  A string that the code only compares (a class name, a \<^verbatim>\<open>data-name\<close>, a key, a
  property of the package) is a list of characters. The tokenizer reads a string code
  unit by code unit, so there a string is the list of its UTF-16 code units. The
  library calls (\<^verbatim>\<open>String.prototype.toLowerCase\<close>, \<^verbatim>\<open>search\<close>,
  \<^verbatim>\<open>DOMParser.parseFromString\<close>, \<^verbatim>\<open>api.get\<close>, the default tokenizer) are parameters
  of the functions that use them.

  Left out are the parts that touch none of the signals and elements the statements
  below are about: the global key handler that moves the focus to the input, the
  handler that closes the results on a click outside (flat variant), the swap of the
  two panels of the page (sectioned variant), the placeholder of the input.
\<close>

subsection \<open>The tokenizer\<close>

text \<open>
  A string of the tokenizer: its UTF-16 code units. \<open>units\<close> gives the code units of
  a string of ASCII characters.
\<close>

type_synonym jsstring = "nat list"

definition units :: "string \<Rightarrow> jsstring" where
  "units s = map of_char s"

text \<open>The character class \<^verbatim>\<open>[A-Z]\<close> of the separator \<^verbatim>\<open>/(?=[A-Z])/\<close>.\<close>

definition is_upper_AZ :: "nat \<Rightarrow> bool" where
  "is_upper_AZ u = (65 \<le> u \<and> u \<le> 90)"

text \<open>The substring of \<open>S\<close> from index \<open>a\<close> (inclusive) to index \<open>b\<close> (exclusive).\<close>

definition substring :: "jsstring \<Rightarrow> nat \<Rightarrow> nat \<Rightarrow> jsstring" where
  "substring S a b = take (b - a) (drop a S)"

text \<open>
  A sticky match of \<^verbatim>\<open>(?=[A-Z])\<close> at index \<open>q\<close>: it succeeds when the code unit at \<open>q\<close>
  is in \<^verbatim>\<open>[A-Z]\<close>, and it is empty, so that the index after the match is \<open>q\<close> again.
\<close>

definition lookahead_upper :: "jsstring \<Rightarrow> nat \<Rightarrow> bool" where
  "lookahead_upper S q = (q < length S \<and> is_upper_AZ (S ! q))"

text \<open>
  \<^verbatim>\<open>raw.split(/(?=[A-Z])/)\<close>: the loop of \<^verbatim>\<open>RegExp.prototype[@@split]\<close> for this
  separator. \<open>p\<close> is the start of the piece being read, \<open>q\<close> the index where a match is
  tried, \<open>A\<close> the pieces pushed so far. A match that ends where the piece starts
  (\<open>e = p\<close>) does not split; the search then moves on by one code unit. (No limit is
  passed, so the loop stops at the default limit of \<open>2^32 - 1\<close> pieces only, more than a
  string has code units.)
\<close>

function split_loop :: "jsstring \<Rightarrow> nat \<Rightarrow> nat \<Rightarrow> jsstring list \<Rightarrow> jsstring list" where
  "split_loop S p q A =
     (if q < length S then
        (if lookahead_upper S q then
           (let e = min q (length S) in
            if e = p then split_loop S p (q + 1) A
            else split_loop S e e (A @ [substring S p q]))
         else split_loop S p (q + 1) A)
      else A @ [substring S p (length S)])"
  by pat_completeness auto
termination
  by (relation "measure (\<lambda>(S, p, q, A). 2 * (length S - q) + (if p = q then 0 else 1))") auto

declare split_loop.simps [simp del]

text \<open>
  The whole of \<^verbatim>\<open>split\<close>: on the empty string the result is the empty array when the
  separator matches there and the array holding the empty string otherwise.
\<close>

definition split_upper :: "jsstring \<Rightarrow> jsstring list" where
  "split_upper S =
     (if length S = 0 then (if lookahead_upper S 0 then [] else [S])
      else split_loop S 0 0 [])"

text \<open>
  The \<^verbatim>\<open>tokenize\<close> component handed to \<^verbatim>\<open>create\<close>. Two library functions are its
  parameters: \<open>toLowerCase\<close> is \<^verbatim>\<open>String.prototype.toLowerCase\<close>, the case mapping of
  Unicode, and \<open>tokenizer_tokenize\<close> is the default tokenizer of the search library,
  to which every property but \<^verbatim>\<open>name\<close> goes.
\<close>

definition tokenize ::
  "(jsstring \<Rightarrow> jsstring) \<Rightarrow>
   (jsstring \<Rightarrow> string option \<Rightarrow> string option \<Rightarrow> jsstring list) \<Rightarrow>
   jsstring \<Rightarrow> string option \<Rightarrow> string option \<Rightarrow> jsstring list" where
  "tokenize toLowerCase tokenizer_tokenize raw lang prop =
     (if prop = Some ''name'' then map toLowerCase (split_upper raw)
      else tokenizer_tokenize raw lang prop)"

text \<open>
  The tokenizer as the specification words it: split at every position immediately
  preceding an uppercase letter, lowercase each resulting piece, drop the empty pieces.
  \<open>split_before_upper cur rest\<close> reads \<open>rest\<close> with the piece \<open>cur\<close> open; every
  uppercase letter closes the open piece and starts the next one.
\<close>

fun split_before_upper :: "jsstring \<Rightarrow> jsstring \<Rightarrow> jsstring list" where
  "split_before_upper cur [] = [cur]"
| "split_before_upper cur (c # cs) =
     (if is_upper_AZ c then cur # split_before_upper [c] cs
      else split_before_upper (cur @ [c]) cs)"

definition spec_tokenize_name :: "(jsstring \<Rightarrow> jsstring) \<Rightarrow> jsstring \<Rightarrow> jsstring list" where
  "spec_tokenize_name toLowerCase raw =
     filter (\<lambda>piece. piece \<noteq> []) (map toLowerCase (split_before_upper [] raw))"

text \<open>
  What is used of \<^verbatim>\<open>String.prototype.toLowerCase\<close>: it gives the empty string for the
  empty string only, and on a string of ASCII characters it lowers the letters
  \<^verbatim>\<open>A-Z\<close> and leaves the rest. \<open>ascii_toLowerCase\<close> is the function that does so to every
  code unit; it stands for the library function where a concrete one is needed.
\<close>

definition ascii_lower :: "nat \<Rightarrow> nat" where
  "ascii_lower u = (if is_upper_AZ u then u + 32 else u)"

definition ascii_toLowerCase :: "jsstring \<Rightarrow> jsstring" where
  "ascii_toLowerCase s = map ascii_lower s"

definition is_ascii :: "jsstring \<Rightarrow> bool" where
  "is_ascii s = list_all (\<lambda>u. u < 128) s"

text \<open>
  The pieces of the loop, read off the string from left to right: an uppercase letter
  starts a new piece unless the open piece is still empty.
\<close>

fun pieces :: "jsstring \<Rightarrow> jsstring \<Rightarrow> jsstring list" where
  "pieces cur [] = [cur]"
| "pieces cur (c # cs) =
     (if is_upper_AZ c \<and> cur \<noteq> [] then cur # pieces [c] cs
      else pieces (cur @ [c]) cs)"

subsection \<open>The parsed document\<close>

text \<open>
  An element has an identity, the tokens of its \<^verbatim>\<open>class\<close> attribute, the value of its
  \<^verbatim>\<open>data-name\<close> attribute (\<^verbatim>\<open>dataset.name\<close>, absent when the attribute is) and its child
  elements. The handlers never change the tree; they change the \<^verbatim>\<open>display\<close> property of
  the inline style of elements, which the document keeps per element identity
  (\<open>None\<close>: the property is not set).

  Every element has an inline style and a \<^verbatim>\<open>dataset\<close>, as the HTML, SVG and MathML
  elements that the parser creates have.

  A document has a mode. The parser puts a document into quirks mode when its source
  has no doctype (and for some old doctypes); the source is the content passed or
  fetched, so either mode can occur.
\<close>

datatype element =
  Element (ident: nat) (classList: "string list") (data_name: "string option")
    (children: "element list")

type_synonym styles = "nat \<Rightarrow> string option"

record document =
  documentElement :: element
  quirks :: bool
  display :: styles

text \<open>The proper descendants of an element, in document order.\<close>

fun descendants :: "element \<Rightarrow> element list" where
  "descendants (Element i cs n ks) = concat (map (\<lambda>k. k # descendants k) ks)"

definition all_elements :: "document \<Rightarrow> element list" where
  "all_elements doc = documentElement doc # descendants (documentElement doc)"

text \<open>
  How \<^verbatim>\<open>getElementsByClassName\<close> compares a class name with a token of a \<^verbatim>\<open>class\<close>
  attribute: in a document in quirks mode, up to the case of the ASCII letters;
  otherwise, exactly. (Both calls of the code pass one class name.)
\<close>

definition ascii_lower_char :: "char \<Rightarrow> char" where
  "ascii_lower_char c =
     (case map_of (zip ''ABCDEFGHIJKLMNOPQRSTUVWXYZ'' ''abcdefghijklmnopqrstuvwxyz'') c of
        Some l \<Rightarrow> l
      | None \<Rightarrow> c)"

definition same_class :: "bool \<Rightarrow> string \<Rightarrow> string \<Rightarrow> bool" where
  "same_class q a b = (if q then map ascii_lower_char a = map ascii_lower_char b else a = b)"

definition has_class :: "bool \<Rightarrow> string \<Rightarrow> element \<Rightarrow> bool" where
  "has_class q c e = (\<exists>t\<in>set (classList e). same_class q c t)"

text \<open>
  \<^verbatim>\<open>Element.getElementsByClassName\<close> ranges over the descendants of the element (\<open>q\<close>
  says whether its document is in quirks mode), \<^verbatim>\<open>Document.getElementsByClassName\<close>
  over every element of the document.
\<close>

definition elem_getElementsByClassName :: "bool \<Rightarrow> element \<Rightarrow> string \<Rightarrow> element list" where
  "elem_getElementsByClassName q e c = filter (has_class q c) (descendants e)"

definition doc_getElementsByClassName :: "document \<Rightarrow> string \<Rightarrow> element list" where
  "doc_getElementsByClassName doc c = filter (has_class (quirks doc) c) (all_elements doc)"

definition setProperty_display :: "element \<Rightarrow> string \<Rightarrow> styles \<Rightarrow> styles" where
  "setProperty_display e v st = st(ident e := Some v)"

definition removeProperty_display :: "element \<Rightarrow> styles \<Rightarrow> styles" where
  "removeProperty_display e st = st(ident e := None)"

text \<open>An element is hidden when its inline style says \<^verbatim>\<open>display: none\<close>.\<close>

definition hidden :: "document \<Rightarrow> element \<Rightarrow> bool" where
  "hidden doc e = (display doc (ident e) = Some ''none'')"

text \<open>In a document no two elements share an identity.\<close>

definition unique_idents :: "document \<Rightarrow> bool" where
  "unique_idents doc = distinct (map ident (all_elements doc))"

text \<open>\<^verbatim>\<open>results.includes(searchItem.dataset.name)\<close>, \<open>results\<close> an array of strings.\<close>

fun array_includes :: "string list \<Rightarrow> string option \<Rightarrow> bool" where
  "array_includes results None = False"
| "array_includes results (Some n) = (n \<in> set results)"

subsection \<open>Reconciling the document with the hits\<close>

text \<open>The body of the loop over the namespace items (both variants).\<close>

definition toggle_item :: "string list \<Rightarrow> element \<Rightarrow> styles \<Rightarrow> styles" where
  "toggle_item results searchItem st =
     (if array_includes results (data_name searchItem)
      then removeProperty_display searchItem st
      else setProperty_display searchItem ''none'' st)"

text \<open>The flat variant: one loop over the namespace items of the document.\<close>

definition reconcile_flat :: "string list \<Rightarrow> document \<Rightarrow> document" where
  "reconcile_flat results doc =
     doc\<lparr>display :=
       fold (toggle_item results) (doc_getElementsByClassName doc ''namespaceItem'')
         (display doc)\<rparr>"

text \<open>
  The sectioned variant: for each element of class \<^verbatim>\<open>section\<close>, the loop over the
  namespace items below it, counting the hidden ones, then the section itself.
  \<open>q\<close> is the mode of the document the section belongs to.
\<close>

definition count_item :: "string list \<Rightarrow> element \<Rightarrow> nat \<times> styles \<Rightarrow> nat \<times> styles" where
  "count_item results searchItem acc =
     (case acc of (hiddenItems, st) \<Rightarrow>
        if array_includes results (data_name searchItem)
        then (hiddenItems, removeProperty_display searchItem st)
        else (hiddenItems + 1, setProperty_display searchItem ''none'' st))"

definition toggle_section :: "string list \<Rightarrow> bool \<Rightarrow> element \<Rightarrow> styles \<Rightarrow> styles" where
  "toggle_section results q entrypoints st =
     (let items = elem_getElementsByClassName q entrypoints ''namespaceItem'' in
      case fold (count_item results) items (0, st) of (hiddenItems, st') \<Rightarrow>
        if hiddenItems = length items
        then setProperty_display entrypoints ''none'' st'
        else removeProperty_display entrypoints st')"

definition reconcile_sect :: "string list \<Rightarrow> document \<Rightarrow> document" where
  "reconcile_sect results doc =
     doc\<lparr>display :=
       fold (toggle_section results (quirks doc)) (doc_getElementsByClassName doc ''section'')
         (display doc)\<rparr>"

text \<open>
  The elements that are not hidden, in document order (\<^verbatim>\<open>visibleSet(doc)\<close> of the
  specification's test of idempotence).
\<close>

definition visibleSet :: "document \<Rightarrow> element list" where
  "visibleSet doc = filter (\<lambda>e. \<not> hidden doc e) (all_elements doc)"

text \<open>
  What the two loop bodies store, named for the proofs: the \<^verbatim>\<open>display\<close> an item gets
  from its name, the \<^verbatim>\<open>display\<close> a section gets from the names of the items below it,
  and the list of the stores made for one section, in the order of the loop.
\<close>

definition item_display :: "string list \<Rightarrow> string option \<Rightarrow> string option" where
  "item_display results n = (if array_includes results n then None else Some ''none'')"

definition section_display :: "string list \<Rightarrow> bool \<Rightarrow> element \<Rightarrow> string option" where
  "section_display results q s =
     (if list_all (\<lambda>x. \<not> array_includes results (data_name x))
           (elem_getElementsByClassName q s ''namespaceItem'')
      then Some ''none'' else None)"

definition section_writes ::
  "string list \<Rightarrow> bool \<Rightarrow> element \<Rightarrow> (nat \<times> string option) list" where
  "section_writes results q s =
     map (\<lambda>x. (ident x, item_display results (data_name x)))
       (elem_getElementsByClassName q s ''namespaceItem'')
     @ [(ident s, section_display results q s)]"

subsection \<open>The signals of the island\<close>

datatype kind =
  KClass | KEnum | KFunction | KInterface | KNamespace | KTypeAlias | KVariable

record source_location =
  filename :: string
  line :: int
  col :: int

record SearchRecord =
  name :: string
  kind :: "kind list"
  file' :: string
  location :: source_location

record LocalSymbolSearchProps =
  scope :: string
  pkg :: string
  version :: string
  content :: "string option"

text \<open>
  The search index, as far as the island sees it: the documents inserted so far, each
  the \<^verbatim>\<open>name\<close> read from a namespace item (absent when the item has no
  \<^verbatim>\<open>data-name\<close>). \<^verbatim>\<open>create\<close> returns the empty index and \<^verbatim>\<open>insertMultiple\<close> adds to it.
\<close>

type_synonym orama = "string option list"

definition create :: orama where
  "create = []"

definition insertMultiple :: "orama \<Rightarrow> string option list \<Rightarrow> orama" where
  "insertMultiple oramaDb searchItems = oramaDb @ searchItems"

text \<open>
  The signals both variants declare; each field is the \<^verbatim>\<open>.value\<close> of the signal.
  The flat variant adds \<^verbatim>\<open>results\<close>, the sectioned one \<^verbatim>\<open>searchCounter\<close>.
\<close>

record signals =
  db :: "orama option"
  selectionIdx :: int
  parsedSearchContent :: "document option"
  showResults :: bool

record flat_signals = signals +
  results :: "SearchRecord list"

record sect_signals = signals +
  searchCounter :: nat

definition initial_flat :: flat_signals where
  "initial_flat =
     \<lparr>db = None, selectionIdx = - 1, parsedSearchContent = None, showResults = True,
      results = []\<rparr>"

definition initial_sect :: sect_signals where
  "initial_sect =
     \<lparr>db = None, selectionIdx = - 1, parsedSearchContent = None, showResults = False,
      searchCounter = 0\<rparr>"

subsection \<open>Rendering the input\<close>

text \<open>
  The values the two expressions \<^verbatim>\<open>db\<close> and \<^verbatim>\<open>db.value\<close> can take, and the
  conversion to a boolean that \<^verbatim>\<open>!\<close> applies: an object is true, \<^verbatim>\<open>undefined\<close> false.
\<close>

datatype jsvalue = JSUndefined | JSObject

fun ToBoolean :: "jsvalue \<Rightarrow> bool" where
  "ToBoolean JSUndefined = False"
| "ToBoolean JSObject = True"

text \<open>
  \<^verbatim>\<open>db\<close> is the signal that \<^verbatim>\<open>useSignal\<close> returned: an object, whatever it holds.
  \<^verbatim>\<open>db.value\<close> is what it holds: \<^verbatim>\<open>undefined\<close> until the index is stored there.
\<close>

definition db_signal :: "'a signals_scheme \<Rightarrow> jsvalue" where
  "db_signal s = JSObject"

definition db_value :: "'a signals_scheme \<Rightarrow> jsvalue" where
  "db_value s = (case db s of None \<Rightarrow> JSUndefined | Some oramaDb \<Rightarrow> JSObject)"

text \<open>The attribute \<^verbatim>\<open>disabled={!db}\<close> of the input, in both variants.\<close>

definition input_disabled :: "'a signals_scheme \<Rightarrow> bool" where
  "input_disabled s = (\<not> ToBoolean (db_signal s))"

subsection \<open>Initialization\<close>

text \<open>
  Modelled from the spec: the envelope that \<^verbatim>\<open>api.get\<close> resolves with
  (\<^verbatim>\<open>utils/api.ts\<close> is not among the sources), \<^verbatim>\<open>{ ok: bool, data?: T }\<close>.
  \<open>data\<close> is what the effect hands to the parser.
\<close>

record api_response =
  ok :: bool
  data :: "string option"

text \<open>The request for \<^verbatim>\<open>/scopes/{scope}/packages/{pkg}/versions/{version}/docs/search\<close>.\<close>

record search_request =
  req_scope :: string
  req_pkg :: string
  req_version :: string

text \<open>The truth value of \<^verbatim>\<open>props.content\<close>: absent and empty content are both false.\<close>

definition content_given :: "string option \<Rightarrow> bool" where
  "content_given c = (case c of None \<Rightarrow> False | Some v \<Rightarrow> v \<noteq> [])"

text \<open>The request the effect issues at mount, when the content is not passed in.\<close>

definition fetch_request :: "LocalSymbolSearchProps \<Rightarrow> search_request option" where
  "fetch_request props =
     (if \<not> content_given (content props)
      then Some \<lparr>req_scope = scope props, req_pkg = pkg props,
                 req_version = (if version props \<noteq> [] then version props else ''latest'')\<rparr>
      else None)"

text \<open>
  The end of the effect, from \<^verbatim>\<open>new DOMParser()\<close> on: the parsed document is published,
  the names of its namespace items are inserted into the index, the index is published.
\<close>

definition publish ::
  "(string option \<Rightarrow> document) \<Rightarrow> orama \<Rightarrow> string option \<Rightarrow>
   'a signals_scheme \<Rightarrow> 'a signals_scheme" where
  "publish parseFromString oramaDb searchContent s =
     (let searchDocument = parseFromString searchContent;
          s1 = s\<lparr>parsedSearchContent := Some searchDocument\<rparr>;
          searchItems =
            map data_name (doc_getElementsByClassName searchDocument ''namespaceItem'')
      in s1\<lparr>db := Some (insertMultiple oramaDb searchItems)\<rparr>)"

text \<open>
  The effect run at mount. It returns the signals as it leaves them, what it wrote with
  \<^verbatim>\<open>console.error\<close> and the requests it issued.
\<close>

record 'a init_result =
  final :: 'a
  console_error :: "api_response list"
  requests :: "search_request list"

definition initialize ::
  "(search_request \<Rightarrow> api_response) \<Rightarrow> (string option \<Rightarrow> document) \<Rightarrow>
   LocalSymbolSearchProps \<Rightarrow> 'a signals_scheme \<Rightarrow> 'a signals_scheme init_result" where
  "initialize api_get parseFromString props s =
     (let oramaDb = create in
      case fetch_request props of
        Some req \<Rightarrow>
          (let searchResp = api_get req in
           if ok searchResp
           then \<lparr>final = publish parseFromString oramaDb (data searchResp) s,
                 console_error = [], requests = [req]\<rparr>
           else \<lparr>final = s, console_error = [searchResp], requests = [req]\<rparr>)
      | None \<Rightarrow>
          \<lparr>final = publish parseFromString oramaDb (content props) s,
           console_error = [], requests = []\<rparr>)"

subsection \<open>The input handler\<close>

text \<open>
  \<^verbatim>\<open>search\<close> is the query of the library, a parameter: given the value of \<^verbatim>\<open>db\<close> and
  the term it returns the documents of the hits in their order, or nothing when the
  call throws (the awaited promise is rejected; the handler stops there).
  A handler returns the signals as it leaves them and the error it stopped on, if any.
\<close>

datatype js_error = SearchRejected | TypeError

text \<open>
  The flat variant. Inside the branch for a non-empty query, line 145 declares the
  block-scoped \<^verbatim>\<open>let results: string[]\<close>, the names of the hits. From there to the end
  of the block the identifier \<^verbatim>\<open>results\<close> is that array and no longer the signal, so
  the assignment \<^verbatim>\<open>results.value = ...\<close> of line 157 stores the hit list in a property
  of the array: the signal \<^verbatim>\<open>results\<close> is written by the other branch only.
  Reading \<^verbatim>\<open>doc.getElementsByClassName\<close> on a null document throws, after
  \<^verbatim>\<open>selectionIdx\<close> was reset.
\<close>

definition onInput_flat ::
  "(orama option \<Rightarrow> string \<Rightarrow> SearchRecord list option) \<Rightarrow> string \<Rightarrow>
   flat_signals \<Rightarrow> flat_signals \<times> js_error option" where
  "onInput_flat search v s =
     (if v \<noteq> [] then
        (case search (db s) v of
           None \<Rightarrow> (s, Some SearchRejected)
         | Some hits \<Rightarrow>
             (let s1 = s\<lparr>selectionIdx := - 1\<rparr>;
                  results_local = map name hits
              in case parsedSearchContent s1 of
                   None \<Rightarrow> (s1, Some TypeError)
                 | Some doc \<Rightarrow>
                     (s1\<lparr>parsedSearchContent := Some (reconcile_flat results_local doc)\<rparr>,
                      None)))
      else (s\<lparr>results := []\<rparr>, None))"

text \<open>The sectioned variant.\<close>

definition onInput_sect ::
  "(orama option \<Rightarrow> string \<Rightarrow> SearchRecord list option) \<Rightarrow> string \<Rightarrow>
   sect_signals \<Rightarrow> sect_signals \<times> js_error option" where
  "onInput_sect search v s =
     (if v \<noteq> [] then
        (case search (db s) v of
           None \<Rightarrow> (s, Some SearchRejected)
         | Some hits \<Rightarrow>
             (let s1 = s\<lparr>selectionIdx := - 1\<rparr>;
                  results_local = map name hits
              in case parsedSearchContent s1 of
                   None \<Rightarrow> (s1, Some TypeError)
                 | Some doc \<Rightarrow>
                     (s1\<lparr>parsedSearchContent := Some (reconcile_sect results_local doc),
                         searchCounter := searchCounter s1 + 1,
                         showResults := True\<rparr>,
                      None)))
      else (s\<lparr>showResults := False\<rparr>, None))"

subsection \<open>The keyboard handler\<close>

text \<open>\<^verbatim>\<open>xs[i]\<close> for an integer \<open>i\<close>: \<^verbatim>\<open>undefined\<close> outside the array.\<close>

definition array_at :: "'a list \<Rightarrow> int \<Rightarrow> 'a option" where
  "array_at xs i = (if 0 \<le> i \<and> nat i < length xs then Some (xs ! nat i) else None)"

text \<open>
  What a key press leaves behind: the signals, whether \<^verbatim>\<open>e.preventDefault()\<close> was
  called, and the value assigned to \<^verbatim>\<open>location.href\<close>, if any.
\<close>

record key_outcome =
  state_after :: flat_signals
  defaultPrevented :: bool
  location_href :: "string option"

definition onKeyUp_flat :: "LocalSymbolSearchProps \<Rightarrow> string \<Rightarrow> flat_signals \<Rightarrow> key_outcome" where
  "onKeyUp_flat props key s =
     (if key = ''ArrowDown'' then
        \<lparr>state_after =
           s\<lparr>selectionIdx := min (int (length (results s)) - 1) (selectionIdx s + 1)\<rparr>,
         defaultPrevented = False, location_href = None\<rparr>
      else if key = ''ArrowUp'' then
        \<lparr>state_after = s\<lparr>selectionIdx := max 0 (selectionIdx s - 1)\<rparr>,
         defaultPrevented = False, location_href = None\<rparr>
      else if key = ''Enter'' then
        (if selectionIdx s > - 1 then
           (case array_at (results s) (selectionIdx s) of
              Some item \<Rightarrow>
                \<lparr>state_after = s, defaultPrevented = True,
                 location_href = Some
                   (''/@'' @ scope props @ ''/'' @ pkg props @
                    (if version props \<noteq> [] then ''@'' @ version props else []) @
                    ''/doc'' @ (if file' item = ''.'' then [] else file' item) @
                    ''/~/'' @ name item)\<rparr>
            | None \<Rightarrow> \<lparr>state_after = s, defaultPrevented = False, location_href = None\<rparr>)
         else \<lparr>state_after = s, defaultPrevented = False, location_href = None\<rparr>)
      else \<lparr>state_after = s, defaultPrevented = False, location_href = None\<rparr>)"

text \<open>The sectioned variant: the body of \<^verbatim>\<open>onKeyUp\<close> is a comment.\<close>

definition onKeyUp_sect :: "LocalSymbolSearchProps \<Rightarrow> string \<Rightarrow> sect_signals \<Rightarrow> sect_signals" where
  "onKeyUp_sect props key s = s"

subsection \<open>Sequences of events\<close>

text \<open>
  An input event carries the value of the input, a key event the key. Each handler
  runs to its end before the next event is handled.
\<close>

datatype event = InputEvent string | KeyUpEvent string

definition step_flat ::
  "(orama option \<Rightarrow> string \<Rightarrow> SearchRecord list option) \<Rightarrow> LocalSymbolSearchProps \<Rightarrow>
   event \<Rightarrow> flat_signals \<Rightarrow> flat_signals" where
  "step_flat search props ev s =
     (case ev of
        InputEvent v \<Rightarrow> fst (onInput_flat search v s)
      | KeyUpEvent k \<Rightarrow> state_after (onKeyUp_flat props k s))"

definition run_flat ::
  "(orama option \<Rightarrow> string \<Rightarrow> SearchRecord list option) \<Rightarrow> LocalSymbolSearchProps \<Rightarrow>
   event list \<Rightarrow> flat_signals \<Rightarrow> flat_signals" where
  "run_flat search props evs s = fold (step_flat search props) evs s"

definition step_sect ::
  "(orama option \<Rightarrow> string \<Rightarrow> SearchRecord list option) \<Rightarrow> LocalSymbolSearchProps \<Rightarrow>
   event \<Rightarrow> sect_signals \<Rightarrow> sect_signals" where
  "step_sect search props ev s =
     (case ev of
        InputEvent v \<Rightarrow> fst (onInput_sect search v s)
      | KeyUpEvent k \<Rightarrow> onKeyUp_sect props k s)"

definition run_sect ::
  "(orama option \<Rightarrow> string \<Rightarrow> SearchRecord list option) \<Rightarrow> LocalSymbolSearchProps \<Rightarrow>
   event list \<Rightarrow> sect_signals \<Rightarrow> sect_signals" where
  "run_sect search props evs s = fold (step_sect search props) evs s"

subsection \<open>The statements of the specification\<close>

text \<open>The invariant of the UI state: the selection is none (\<open>-1\<close>) or an index of a record.\<close>

definition selection_in_range :: "flat_signals \<Rightarrow> bool" where
  "selection_in_range s =
     (- 1 \<le> selectionIdx s \<and> selectionIdx s \<le> int (length (results s)) - 1)"

text \<open>
  The navigation target as the specification writes it:
  \<^verbatim>\<open>/@\<close>scope\<^verbatim>\<open>/\<close>pkg, then \<^verbatim>\<open>@\<close>version when the version is not empty, then
  \<^verbatim>\<open>/doc\<close>, then the file unless the file is \<^verbatim>\<open>.\<close>, then \<^verbatim>\<open>/~/\<close>name.
\<close>

definition spec_symbol_url :: "string \<Rightarrow> string \<Rightarrow> string \<Rightarrow> string \<Rightarrow> string \<Rightarrow> string" where
  "spec_symbol_url sc pk ver fl nm =
     ''/@'' @ sc @ ''/'' @ pk @ (if ver = [] then [] else ''@'' @ ver) @
     ''/doc'' @ (if fl = ''.'' then [] else fl) @ ''/~/'' @ nm"

subsection \<open>Concrete documents, records and properties\<close>

text \<open>
  A page with one section holding two namespace items, and a third item outside of any
  section; nothing is hidden at first.
\<close>

definition item_fooBar :: element where
  "item_fooBar = Element 3 [''namespaceItem''] (Some ''fooBar'') []"

definition item_baz :: element where
  "item_baz = Element 4 [''namespaceItem''] (Some ''baz'') []"

definition item_qux :: element where
  "item_qux = Element 5 [''namespaceItem''] (Some ''qux'') []"

definition section_mod :: element where
  "section_mod = Element 2 [''section''] None [item_fooBar, item_baz]"

definition no_styles :: styles where
  "no_styles i = None"

definition doc_example :: document where
  "doc_example =
     \<lparr>documentElement =
        Element 0 [] None [Element 1 [] None [section_mod, item_qux]],
      quirks = True, display = no_styles\<rparr>"

text \<open>A page whose only namespace item stands outside of any section.\<close>

definition item_alone :: element where
  "item_alone = Element 2 [''namespaceItem''] (Some ''foo'') []"

definition doc_no_section :: document where
  "doc_no_section =
     \<lparr>documentElement = Element 0 [] None [Element 1 [] None [item_alone]],
      quirks = True, display = no_styles\<rparr>"

text \<open>
  A page with a section whose only namespace item carries the class \<^verbatim>\<open>section\<close> as
  well.
\<close>

definition item_section :: element where
  "item_section = Element 3 [''section'', ''namespaceItem''] (Some ''foo'') []"

definition section_outer :: element where
  "section_outer = Element 2 [''section''] None [item_section]"

definition doc_item_section :: document where
  "doc_item_section =
     \<lparr>documentElement = Element 0 [] None [Element 1 [] None [section_outer]],
      quirks = True, display = no_styles\<rparr>"

text \<open>
  A page whose section holds its only namespace item inside a wrapper, not as a child.
\<close>

definition section_wrapping :: element where
  "section_wrapping = Element 2 [''section''] None [Element 3 [''wrapper''] None [item_baz]]"

definition doc_wrapping :: document where
  "doc_wrapping =
     \<lparr>documentElement = Element 0 [] None [Element 1 [] None [section_wrapping]],
      quirks = True, display = no_styles\<rparr>"

text \<open>A page where an element of both classes stands outside of any section.\<close>

definition doc_both_classes :: document where
  "doc_both_classes =
     \<lparr>documentElement = Element 0 [] None [Element 1 [] None [item_section]],
      quirks = True, display = no_styles\<rparr>"

text \<open>Three records, the properties of a package page, and an index that finds nothing.\<close>

definition record_of :: "string \<Rightarrow> string \<Rightarrow> SearchRecord" where
  "record_of nm fl =
     \<lparr>name = nm, kind = [KFunction], file' = fl,
      location = \<lparr>filename = fl, line = 1, col = 0\<rparr>\<rparr>"

definition three_records :: "SearchRecord list" where
  "three_records =
     [record_of ''walk'' ''.'', record_of ''copy'' ''/copy.ts'', record_of ''exists'' ''.'']"

definition three_results :: flat_signals where
  "three_results = initial_flat\<lparr>results := three_records\<rparr>"

definition props_fs :: LocalSymbolSearchProps where
  "props_fs = \<lparr>scope = ''std'', pkg = ''fs'', version = ''1.0.0'', content = None\<rparr>"

definition search_nothing :: "orama option \<Rightarrow> string \<Rightarrow> SearchRecord list option" where
  "search_nothing d q = Some []"

definition api_get_failed :: "search_request \<Rightarrow> api_response" where
  "api_get_failed req = \<lparr>ok = False, data = None\<rparr>"

definition no_tokens :: "jsstring \<Rightarrow> string option \<Rightarrow> string option \<Rightarrow> jsstring list" where
  "no_tokens raw lang prop = []"

text \<open>
  A state after initialization on the page with one section: the index holds the three
  names, three records are listed and the second is selected; and an index that finds
  the item \<^verbatim>\<open>baz\<close>.
\<close>

definition ready_three :: flat_signals where
  "ready_three =
     \<lparr>db = Some [Some ''fooBar'', Some ''baz'', Some ''qux''], selectionIdx = 1,
      parsedSearchContent = Some doc_example, showResults = True,
      results = three_records\<rparr>"

definition search_baz :: "orama option \<Rightarrow> string \<Rightarrow> SearchRecord list option" where
  "search_baz d q = Some [record_of ''baz'' ''.'']"

text \<open>A page whose section holds a heading, which is no namespace item, and one item.\<close>

definition heading_mod :: element where
  "heading_mod = Element 6 [''heading''] None []"

definition section_heading :: element where
  "section_heading = Element 2 [''section''] None [heading_mod, item_fooBar]"

definition doc_heading :: document where
  "doc_heading =
     \<lparr>documentElement = Element 0 [] None [Element 1 [] None [section_heading]],
      quirks = True, display = no_styles\<rparr>"

text \<open>
  A page with a section of class \<^verbatim>\<open>Section\<close>, which only a document in quirks
  mode takes for a section; \<open>q\<close> is the mode.
\<close>

definition section_capital :: element where
  "section_capital = Element 2 [''Section''] None [item_fooBar]"

definition doc_capital :: "bool \<Rightarrow> document" where
  "doc_capital q =
     \<lparr>documentElement = Element 0 [] None [Element 1 [] None [section_capital]],
      quirks = q, display = no_styles\<rparr>"

definition parse_example :: "string option \<Rightarrow> document" where
  "parse_example html = doc_example"

section \<open>Lemmas\<close>

subsection \<open>Lemmas: the tokenizer\<close>


lemma substring_empty [simp]: "substring S p p = []"
  by (simp add: substring_def)

lemma substring_snoc:
  "p \<le> q \<Longrightarrow> q < length S \<Longrightarrow> substring S p (Suc q) = substring S p q @ [S ! q]"
  by (simp add: substring_def Suc_diff_le take_Suc_conv_app_nth)

lemma substring_eq_Nil:
  "p \<le> q \<Longrightarrow> q \<le> length S \<Longrightarrow> (substring S p q = []) = (p = q)"
  by (auto simp: substring_def)

lemma substring_to_end: "substring S p (length S) = drop p S"
  by (simp add: substring_def)

lemma split_loop_pieces:
  "p \<le> q \<Longrightarrow> q \<le> length S \<Longrightarrow>
   split_loop S p q A = A @ pieces (substring S p q) (drop q S)"
proof (induction S p q A rule: split_loop.induct)
  case (1 S p q A)
  show ?case
  proof (cases "q < length S")
    case False
    with "1.prems" have q: "q = length S" by simp
    show ?thesis
      by (subst split_loop.simps) (simp add: q substring_to_end substring_def)
  next
    case True
    then have dq: "drop q S = S ! q # drop (Suc q) S"
      by (simp add: Cons_nth_drop_Suc)
    show ?thesis
    proof (cases "lookahead_upper S q")
      case False
      then have nu: "\<not> is_upper_AZ (S ! q)" using True by (simp add: lookahead_upper_def)
      have "split_loop S p q A = split_loop S p (q + 1) A"
        using True False by (subst split_loop.simps) simp
      also have "\<dots> = A @ pieces (substring S p (Suc q)) (drop (Suc q) S)"
        using "1.IH"(3) [OF True False] "1.prems" True by simp
      finally show ?thesis
        using nu "1.prems" True by (simp add: dq substring_snoc)
    next
      case up: True
      then have u: "is_upper_AZ (S ! q)" by (simp add: lookahead_upper_def)
      have e: "min q (length S) = q" using True by simp
      show ?thesis
      proof (cases "q = p")
        case qp: True
        have "split_loop S p q A = split_loop S p (q + 1) A"
          using True up qp by (subst split_loop.simps) (simp add: Let_def)
        also have "\<dots> = A @ pieces (substring S p (Suc q)) (drop (Suc q) S)"
          using "1.IH"(1) [OF True up refl] e qp "1.prems" True by simp
        finally have "split_loop S p q A = A @ pieces (substring S p (Suc q)) (drop (Suc q) S)" .
        moreover have "substring S p (Suc q) = [S ! q]"
          using qp True by (simp add: substring_def take_Suc_conv_app_nth hd_drop_conv_nth take_Suc)
        moreover have "substring S p q = []" using qp by simp
        ultimately show ?thesis
          using u by (simp add: dq)
      next
        case qp: False
        have ne: "substring S p q \<noteq> []"
          using substring_eq_Nil [of p q S] "1.prems" qp by auto
        have "split_loop S p q A = split_loop S q q (A @ [substring S p q])"
          using True up qp by (subst split_loop.simps) (simp add: Let_def)
        also have "\<dots> = (A @ [substring S p q]) @ pieces (substring S q q) (drop q S)"
          using "1.IH"(2) [OF True up refl] e qp "1.prems" True by simp
        finally show ?thesis
          using u ne by (simp add: dq)
      qed
    qed
  qed
qed

lemma split_upper_pieces: "split_upper S = pieces [] S"
proof (cases "S = []")
  case True
  then show ?thesis by (simp add: split_upper_def lookahead_upper_def)
next
  case False
  then show ?thesis
    using split_loop_pieces [of 0 0 S "[]"] by (simp add: split_upper_def)
qed

lemma filter_split_before_upper:
  "filter (\<lambda>piece. piece \<noteq> []) (split_before_upper cur rest) =
     (if cur = [] \<and> rest = [] then [] else pieces cur rest)"
  by (induction cur rest rule: split_before_upper.induct) auto

lemma filter_map_nonempty:
  assumes "\<And>s. (f s = []) = (s = [])"
  shows "filter (\<lambda>piece. piece \<noteq> []) (map f xs) =
   map f (filter (\<lambda>piece. piece \<noteq> []) xs)"
  using assms by (induction xs) auto

lemma concat_pieces: "concat (pieces cur rest) = cur @ rest"
  by (induction cur rest rule: pieces.induct) auto

lemma concat_split_upper: "concat (split_upper raw) = raw"
  by (simp add: split_upper_pieces concat_pieces)

lemma split_upper_no_empty_piece: "raw \<noteq> [] \<Longrightarrow> [] \<notin> set (split_upper raw)"
proof -
  assume "raw \<noteq> []"
  then have "filter (\<lambda>piece. piece \<noteq> []) (split_before_upper [] raw) = split_upper raw"
    by (simp add: filter_split_before_upper split_upper_pieces)
  then have "set (split_upper raw) = {x \<in> set (split_before_upper [] raw). x \<noteq> []}"
    by (metis set_filter)
  then show ?thesis by simp
qed

subsection \<open>Lemmas: the loops of the reconciler\<close>

lemma toggle_item_upd: "toggle_item M x st = st(ident x := item_display M (data_name x))"
  by (simp add: toggle_item_def item_display_def setProperty_display_def removeProperty_display_def)

lemma toggle_item_at:
  "toggle_item M x st i = (if i = ident x then item_display M (data_name x) else st i)"
  by (simp add: toggle_item_upd)

lemma fold_toggle_item_at:
  "(\<And>x. x \<in> set xs \<Longrightarrow> ident x = i \<Longrightarrow> data_name x = n) \<Longrightarrow>
   fold (toggle_item M) xs st i =
     (if i \<in> ident ` set xs then item_display M n else st i)"
proof (induction xs arbitrary: st rule: rev_induct)
  case Nil
  then show ?case by simp
next
  case (snoc x xs)
  have "fold (toggle_item M) xs st i =
     (if i \<in> ident ` set xs then item_display M n else st i)"
    using snoc.prems by (intro snoc.IH) auto
  moreover have "fold (toggle_item M) (xs @ [x]) st i =
      (if i = ident x then item_display M (data_name x) else fold (toggle_item M) xs st i)"
    by (simp add: toggle_item_at)
  moreover have "i = ident x \<Longrightarrow> data_name x = n"
    using snoc.prems [of x] by simp
  ultimately show ?case by auto
qed

lemma fold_toggle_item_other:
  "i \<notin> ident ` set xs \<Longrightarrow> fold (toggle_item M) xs st i = st i"
  by (induction xs arbitrary: st) (auto simp: toggle_item_at)

lemma fold_count_item:
  "fold (count_item M) xs (h, st) =
     (h + length (filter (\<lambda>x. \<not> array_includes M (data_name x)) xs),
      fold (toggle_item M) xs st)"
  by (induction xs arbitrary: h st)
    (auto simp: count_item_def toggle_item_def)

lemma length_filter_eq_length: "(length (filter P xs) = length xs) = list_all P xs"
proof (cases "list_all P xs")
  case True
  then have "filter P xs = xs" by (simp add: list_all_iff)
  with True show ?thesis by simp
next
  case False
  then obtain x where "x \<in> set xs" "\<not> P x" by (auto simp: list_all_iff)
  then have "length (filter P xs) < length xs" by (rule length_filter_less)
  with False show ?thesis by simp
qed

lemma toggle_section_upd:
  "toggle_section M q s st =
     (fold (toggle_item M) (elem_getElementsByClassName q s ''namespaceItem'') st)
       (ident s := section_display M q s)"
  by (simp add: toggle_section_def fold_count_item section_display_def
      length_filter_eq_length setProperty_display_def removeProperty_display_def)

lemma fold_toggle_section_item:
  "(\<And>s x. s \<in> set ss \<Longrightarrow> x \<in> set (elem_getElementsByClassName q s ''namespaceItem'') \<Longrightarrow>
      ident x = i \<Longrightarrow> data_name x = n) \<Longrightarrow>
   i \<notin> ident ` set ss \<Longrightarrow>
   fold (toggle_section M q) ss st i =
     (if \<exists>s\<in>set ss. i \<in> ident ` set (elem_getElementsByClassName q s ''namespaceItem'')
      then item_display M n else st i)"
proof (induction ss arbitrary: st rule: rev_induct)
  case Nil
  then show ?case by simp
next
  case (snoc s ss)
  have IH: "fold (toggle_section M q) ss st i =
     (if \<exists>s\<in>set ss. i \<in> ident ` set (elem_getElementsByClassName q s ''namespaceItem'')
      then item_display M n else st i)"
    using snoc.prems by (intro snoc.IH) auto
  have ne: "i \<noteq> ident s" using snoc.prems(2) by auto
  have it: "fold (toggle_item M) (elem_getElementsByClassName q s ''namespaceItem'') st' i =
     (if i \<in> ident ` set (elem_getElementsByClassName q s ''namespaceItem'')
      then item_display M n else st' i)" for st'
    using snoc.prems(1) [of s] by (intro fold_toggle_item_at) auto
  have "fold (toggle_section M q) (ss @ [s]) st i =
      fold (toggle_item M) (elem_getElementsByClassName q s ''namespaceItem'')
        (fold (toggle_section M q) ss st) i"
    using ne by (simp add: toggle_section_upd)
  then show ?case
    by (simp only: it IH) auto
qed

lemma fold_toggle_section_section:
  "s0 \<in> set ss \<Longrightarrow>
   (\<And>s. s \<in> set (dropWhile (\<lambda>x. x \<noteq> s0) ss) \<Longrightarrow> s \<noteq> s0 \<Longrightarrow>
      ident s \<noteq> ident s0 \<and>
      ident s0 \<notin> ident ` set (elem_getElementsByClassName q s ''namespaceItem'')) \<Longrightarrow>
   fold (toggle_section M q) ss st (ident s0) = section_display M q s0"
proof (induction ss arbitrary: st)
  case Nil
  then show ?case by simp
next
  case (Cons s ss)
  show ?case
  proof (cases "s = s0")
    case True
    have later: "s' \<in> set ss \<Longrightarrow> s' \<noteq> s0 \<Longrightarrow> ident s' \<noteq> ident s0 \<and>
        ident s0 \<notin> ident ` set (elem_getElementsByClassName q s' ''namespaceItem'')" for s'
      using Cons.prems(2) [of s'] True by simp
    have "fold (toggle_section M q) ts st' (ident s0) = section_display M q s0"
      if "set ts \<subseteq> set ss" and "st' (ident s0) = section_display M q s0" for ts st'
      using that
    proof (induction ts arbitrary: st' rule: rev_induct)
      case Nil
      then show ?case by simp
    next
      case (snoc t ts)
      have IHt: "fold (toggle_section M q) ts st' (ident s0) = section_display M q s0"
        using snoc by auto
      show ?case
      proof (cases "t = s0")
        case True
        then show ?thesis by (simp add: toggle_section_upd)
      next
        case False
        have "t \<in> set ss" using snoc.prems by auto
        from later [OF this False]
        have a: "ident t \<noteq> ident s0"
          and b: "ident s0 \<notin> ident ` set (elem_getElementsByClassName q t ''namespaceItem'')"
          by auto
        have c: "fold (toggle_item M) (elem_getElementsByClassName q t ''namespaceItem'') st''
            (ident s0) = st'' (ident s0)" for st''
          using b by (rule fold_toggle_item_other)
        have "fold (toggle_section M q) (ts @ [t]) st' (ident s0) =
            fold (toggle_item M) (elem_getElementsByClassName q t ''namespaceItem'')
              (fold (toggle_section M q) ts st') (ident s0)"
          using a by (simp add: toggle_section_upd)
        then show ?thesis by (simp only: c IHt)
      qed
    qed
    moreover have "toggle_section M q s0 st (ident s0) = section_display M q s0"
      by (simp add: toggle_section_upd)
    ultimately have "fold (toggle_section M q) ss (toggle_section M q s0 st) (ident s0) =
        section_display M q s0"
      by blast
    then show ?thesis
      using True by simp
  next
    case False
    then show ?thesis using Cons by simp
  qed
qed

subsection \<open>Lemmas: the document tree\<close>

lemma descendants_children:
  "x \<in> set (descendants e) = (\<exists>k\<in>set (children e). x = k \<or> x \<in> set (descendants k))"
  by (cases e) auto

lemma descendants_trans:
  "s \<in> set (descendants r) \<Longrightarrow> x \<in> set (descendants s) \<Longrightarrow> x \<in> set (descendants r)"
proof (induction r)
  case (Element i cs n ks)
  from Element.prems(1) obtain k where k: "k \<in> set ks" "s = k \<or> s \<in> set (descendants k)"
    by auto
  then have "x \<in> set (descendants k)"
    using Element.IH [of k] Element.prems(2) by auto
  with k show ?case by auto
qed

lemma descendants_block:
  "s \<in> set (descendants r) \<Longrightarrow> \<exists>A B. descendants r = A @ (s # descendants s) @ B"
proof (induction r)
  case (Element i cs n ks)
  from Element.prems obtain k where k: "k \<in> set ks" "s = k \<or> s \<in> set (descendants k)"
    by auto
  from k(1) obtain K1 K2 where ks: "ks = K1 @ k # K2" by (auto simp: in_set_conv_decomp)
  from k(2) have "\<exists>A B. k # descendants k = A @ (s # descendants s) @ B"
  proof
    assume "s = k"
    then have "k # descendants k = [] @ (s # descendants s) @ []" by simp
    then show ?thesis by blast
  next
    assume "s \<in> set (descendants k)"
    from Element.IH [OF k(1) this] obtain A B where "descendants k = A @ (s # descendants s) @ B"
      by blast
    then have "k # descendants k = (k # A) @ (s # descendants s) @ B" by simp
    then show ?thesis by blast
  qed
  then obtain A B where ab: "k # descendants k = A @ (s # descendants s) @ B" by blast
  have "descendants (Element i cs n ks) =
      (concat (map (\<lambda>k. k # descendants k) K1) @ A) @ (s # descendants s) @
      (B @ concat (map (\<lambda>k. k # descendants k) K2))"
    using ab by (simp add: ks)
  then show ?case by blast
qed

lemma all_elements_block:
  "s \<in> set (all_elements doc) \<Longrightarrow> \<exists>A B. all_elements doc = A @ (s # descendants s) @ B"
proof (cases "s = documentElement doc")
  case True
  then have "all_elements doc = [] @ (s # descendants s) @ []" by (simp add: all_elements_def)
  then show ?thesis by blast
next
  case False
  assume "s \<in> set (all_elements doc)"
  with False have "s \<in> set (descendants (documentElement doc))" by (simp add: all_elements_def)
  from descendants_block [OF this] obtain A B
    where "descendants (documentElement doc) = A @ (s # descendants s) @ B" by blast
  then have "all_elements doc = (documentElement doc # A) @ (s # descendants s) @ B"
    by (simp add: all_elements_def)
  then show ?thesis by blast
qed

lemma descendants_in_doc:
  "s \<in> set (all_elements doc) \<Longrightarrow> x \<in> set (descendants s) \<Longrightarrow> x \<in> set (all_elements doc)"
  using all_elements_block [of s doc] by auto

lemma unique_idents_inj:
  "unique_idents doc \<Longrightarrow> x \<in> set (all_elements doc) \<Longrightarrow> y \<in> set (all_elements doc) \<Longrightarrow>
   ident x = ident y \<Longrightarrow> x = y"
  by (auto simp: unique_idents_def distinct_map inj_on_def)

lemma split_at_unique:
  assumes "t \<notin> set xs" and "t \<notin> set xs'" and eq: "xs @ t # ys = xs' @ t # ys'"
  shows "xs = xs'"
proof -
  have "takeWhile (\<lambda>x. x \<noteq> t) (xs @ t # ys) = xs"
    using assms(1) by (subst takeWhile_append2) auto
  moreover have "takeWhile (\<lambda>x. x \<noteq> t) (xs' @ t # ys') = xs'"
    using assms(2) by (subst takeWhile_append2) auto
  ultimately show ?thesis using eq by simp
qed

text \<open>
  An element that comes after \<open>s\<close> in document order does not have \<open>s\<close> among its
  descendants.
\<close>

lemma later_not_ancestor:
  assumes u: "unique_idents doc"
    and split: "all_elements doc = A @ s # B"
    and t: "t \<in> set B"
  shows "s \<notin> set (descendants t)"
proof
  assume st: "s \<in> set (descendants t)"
  have d: "distinct (all_elements doc)"
    using u by (simp add: unique_idents_def distinct_map)
  from t obtain C D where B: "B = C @ t # D" by (auto simp: in_set_conv_decomp)
  have tin: "t \<in> set (all_elements doc)" using split t by simp
  from all_elements_block [OF tin] obtain A' B'
    where blk: "all_elements doc = A' @ (t # descendants t) @ B'" by blast
  have "all_elements doc = (A @ s # C) @ t # D" using split B by simp
  moreover have "all_elements doc = A' @ t # (descendants t @ B')" using blk by simp
  ultimately have "(A @ s # C) @ t # D = A' @ t # (descendants t @ B')" by simp
  moreover have "t \<notin> set (A @ s # C)"
    using d split B by auto
  moreover have "t \<notin> set A'" using d blk by auto
  ultimately have "A @ s # C = A'"
    by (intro split_at_unique [of t "A @ s # C" A' D "descendants t @ B'"]) simp_all
  then have "s \<in> set A'" by auto
  moreover have "s \<in> set (descendants t @ B')" using st by simp
  ultimately show False using d blk by auto
qed

lemma items_in_doc:
  "s \<in> set (all_elements doc) \<Longrightarrow> x \<in> set (elem_getElementsByClassName q s c) \<Longrightarrow>
   x \<in> set (all_elements doc)"
  by (auto simp: elem_getElementsByClassName_def intro: descendants_in_doc)

lemma sections_in_doc:
  "s \<in> set (doc_getElementsByClassName doc c) \<Longrightarrow> s \<in> set (all_elements doc)"
  by (simp add: doc_getElementsByClassName_def)

subsection \<open>Lemmas: the display of an element after reconciling\<close>

lemma later_sections:
  assumes s0: "s0 \<in> set (filter P L)"
    and s: "s \<in> set (dropWhile (\<lambda>x. x \<noteq> s0) (filter P L))" "s \<noteq> s0"
  shows "\<exists>A B. L = A @ s0 # B \<and> s \<in> set B"
proof -
  from s0 have "s0 \<in> set L" "P s0" by auto
  then obtain A B where L: "L = A @ s0 # B" "s0 \<notin> set A"
    by (auto dest: split_list_first)
  have "dropWhile (\<lambda>x. x \<noteq> s0) (filter P A @ s0 # filter P B) =
      dropWhile (\<lambda>x. x \<noteq> s0) (s0 # filter P B)"
    using L(2) by (intro dropWhile_append2) auto
  then have "dropWhile (\<lambda>x. x \<noteq> s0) (filter P L) = s0 # filter P B"
    using L(1) \<open>P s0\<close> by simp
  with s have "s \<in> set B" by auto
  with L show ?thesis by blast
qed

lemma reconcile_sect_section:
  assumes u: "unique_idents doc"
    and s0: "s0 \<in> set (doc_getElementsByClassName doc ''section'')"
  shows "display (reconcile_sect M doc) (ident s0) = section_display M (quirks doc) s0"
proof -
  have "fold (toggle_section M (quirks doc)) (doc_getElementsByClassName doc ''section'') (display doc)
      (ident s0) = section_display M (quirks doc) s0"
  proof (rule fold_toggle_section_section [OF s0])
    fix s
    assume s: "s \<in> set (dropWhile (\<lambda>x. x \<noteq> s0) (doc_getElementsByClassName doc ''section''))"
      and ne: "s \<noteq> s0"
    from later_sections [OF s0 [unfolded doc_getElementsByClassName_def]
        s [unfolded doc_getElementsByClassName_def] ne]
    obtain A B where split: "all_elements doc = A @ s0 # B" and sB: "s \<in> set B" by blast
    have sin: "s \<in> set (all_elements doc)" using split sB by simp
    have s0in: "s0 \<in> set (all_elements doc)" using split by simp
    have 1: "ident s \<noteq> ident s0"
      using unique_idents_inj [OF u sin s0in] ne by blast
    have 2: "ident s0 \<notin> ident ` set (elem_getElementsByClassName (quirks doc) s ''namespaceItem'')"
    proof
      assume "ident s0 \<in> ident ` set (elem_getElementsByClassName (quirks doc) s ''namespaceItem'')"
      then obtain x where x: "x \<in> set (elem_getElementsByClassName (quirks doc) s ''namespaceItem'')"
        "ident x = ident s0" by auto
      have "x \<in> set (all_elements doc)" using items_in_doc [OF sin x(1)] .
      from unique_idents_inj [OF u this s0in x(2)] have "x = s0" .
      with x(1) have "s0 \<in> set (descendants s)"
        by (simp add: elem_getElementsByClassName_def)
      with later_not_ancestor [OF u split sB] show False by simp
    qed
    from 1 2 show "ident s \<noteq> ident s0 \<and>
      ident s0 \<notin> ident ` set (elem_getElementsByClassName (quirks doc) s ''namespaceItem'')" by simp
  qed
  then show ?thesis by (simp add: reconcile_sect_def)
qed

lemma reconcile_sect_at:
  assumes u: "unique_idents doc"
    and e: "e \<in> set (all_elements doc)"
    and ns: "\<not> has_class (quirks doc) ''section'' e"
  shows "display (reconcile_sect M doc) (ident e) =
    (if \<exists>s\<in>set (doc_getElementsByClassName doc ''section'').
          e \<in> set (elem_getElementsByClassName (quirks doc) s ''namespaceItem'')
     then item_display M (data_name e) else display doc (ident e))"
proof -
  let ?ss = "doc_getElementsByClassName doc ''section''"
  have same: "x = e" if "s \<in> set ?ss" "x \<in> set (elem_getElementsByClassName (quirks doc) s ''namespaceItem'')"
    "ident x = ident e" for s x
  proof -
    have "x \<in> set (all_elements doc)"
      using items_in_doc [OF sections_in_doc [OF that(1)] that(2)] .
    from unique_idents_inj [OF u this e that(3)] show ?thesis .
  qed
  have notsec: "ident e \<notin> ident ` set ?ss"
  proof
    assume "ident e \<in> ident ` set ?ss"
    then obtain s where s: "s \<in> set ?ss" "ident s = ident e" by auto
    from unique_idents_inj [OF u sections_in_doc [OF s(1)] e s(2)] have "s = e" .
    with s(1) ns show False by (simp add: doc_getElementsByClassName_def)
  qed
  have "fold (toggle_section M (quirks doc)) ?ss (display doc) (ident e) =
     (if \<exists>s\<in>set ?ss. ident e \<in> ident ` set (elem_getElementsByClassName (quirks doc) s ''namespaceItem'')
      then item_display M (data_name e) else display doc (ident e))"
    using same notsec by (intro fold_toggle_section_item) auto
  moreover have "(\<exists>s\<in>set ?ss. ident e \<in> ident ` set (elem_getElementsByClassName (quirks doc) s ''namespaceItem''))
      = (\<exists>s\<in>set ?ss. e \<in> set (elem_getElementsByClassName (quirks doc) s ''namespaceItem''))"
    using same by (auto simp: image_iff) 
  ultimately show ?thesis by (simp add: reconcile_sect_def)
qed

lemma reconcile_flat_at:
  assumes u: "unique_idents doc"
    and e: "e \<in> set (doc_getElementsByClassName doc ''namespaceItem'')"
  shows "display (reconcile_flat M doc) (ident e) = item_display M (data_name e)"
proof -
  let ?xs = "doc_getElementsByClassName doc ''namespaceItem''"
  have "fold (toggle_item M) ?xs (display doc) (ident e) =
      (if ident e \<in> ident ` set ?xs then item_display M (data_name e) else display doc (ident e))"
  proof (rule fold_toggle_item_at)
    fix x assume "x \<in> set ?xs" "ident x = ident e"
    with unique_idents_inj [OF u sections_in_doc sections_in_doc [OF e]]
    show "data_name x = data_name e" by blast
  qed
  with e show ?thesis by (auto simp: reconcile_flat_def)
qed


subsection \<open>Lemmas: the stores of a run, as a list\<close>

lemma fold_upd_map_of:
  "fold (\<lambda>w st. st(fst w := snd w)) ws st i =
     (case map_of (rev ws) i of None \<Rightarrow> st i | Some v \<Rightarrow> v)"
  by (induction ws arbitrary: st) (auto simp: map_add_def split: option.splits)

lemma fold_upd_idem:
  "fold (\<lambda>w st. st(fst w := snd w)) ws (fold (\<lambda>w st. st(fst w := snd w)) ws st) =
   fold (\<lambda>w st. st(fst w := snd w)) ws st"
  by (rule ext) (simp add: fold_upd_map_of split: option.splits)

lemma fold_toggle_item_writes:
  "fold (toggle_item M) xs st =
   fold (\<lambda>w st. st(fst w := snd w)) (map (\<lambda>x. (ident x, item_display M (data_name x))) xs) st"
  by (induction xs arbitrary: st) (simp_all add: toggle_item_upd)

lemma toggle_section_writes:
  "toggle_section M q s st = fold (\<lambda>w st. st(fst w := snd w)) (section_writes M q s) st"
  by (simp add: toggle_section_upd fold_toggle_item_writes section_writes_def)

lemma fold_toggle_section_writes:
  "fold (toggle_section M q) ss st =
   fold (\<lambda>w st. st(fst w := snd w)) (concat (map (section_writes M q) ss)) st"
  by (induction ss arbitrary: st) (simp_all add: toggle_section_writes)

lemma fold_toggle_item_idem:
  "fold (toggle_item M) xs (fold (toggle_item M) xs st) = fold (toggle_item M) xs st"
  by (simp only: fold_toggle_item_writes fold_upd_idem)

lemma fold_toggle_section_idem:
  "fold (toggle_section M q) ss (fold (toggle_section M q) ss st) = fold (toggle_section M q) ss st"
  by (simp only: fold_toggle_section_writes fold_upd_idem)

section \<open>The claims\<close>

subsection \<open>The tokenizer of the \<^verbatim>\<open>name\<close> property\<close>

text \<open>
  Claim C2, as amended. \<open>toLowerCase\<close> is the library's
  \<^verbatim>\<open>String.prototype.toLowerCase\<close>; two facts about it are used, that it gives the
  empty string for the empty string only, and that on a string of ASCII characters it
  lowers the letters \<^verbatim>\<open>A-Z\<close> and nothing else. Then:
  \<^item> the pieces that \<^verbatim>\<open>split\<close> cuts, put end to end, are \<open>raw\<close>;
  \<^item> for every non-empty string \<open>raw\<close>, tokenizing \<open>raw\<close> for the \<^verbatim>\<open>name\<close> property gives
    what the specification describes: \<open>raw\<close> split at every position immediately
    preceding a letter of \<^verbatim>\<open>A-Z\<close>, each piece lowercased, the empty pieces dropped;
  \<^item> for the empty string the result is the one empty piece, which is not dropped;
  \<^item> \<^verbatim>\<open>HTTPServer\<close> gives \<^verbatim>\<open>h\<close>, \<^verbatim>\<open>t\<close>, \<^verbatim>\<open>t\<close>, \<^verbatim>\<open>p\<close>, \<^verbatim>\<open>server\<close>.
\<close>

theorem tokenize_name_nonempty:
  assumes empty_only: "\<And>s. (toLowerCase s = []) = (s = [])"
    and on_ascii: "\<And>s. is_ascii s \<Longrightarrow> toLowerCase s = ascii_toLowerCase s"
  shows "concat (split_upper raw) = raw \<and>
         (raw \<noteq> [] \<longrightarrow>
            tokenize toLowerCase tokenizer_tokenize raw lang (Some ''name'') =
              spec_tokenize_name toLowerCase raw) \<and>
         tokenize toLowerCase tokenizer_tokenize [] lang (Some ''name'') = [[]] \<and>
         tokenize toLowerCase tokenizer_tokenize (units ''HTTPServer'') lang (Some ''name'') =
           map units [''h'', ''t'', ''t'', ''p'', ''server'']"
proof (intro conjI impI)
  show "concat (split_upper raw) = raw"
    by (rule concat_split_upper)
next
  assume "raw \<noteq> []"
  then show "tokenize toLowerCase tokenizer_tokenize raw lang (Some ''name'') =
      spec_tokenize_name toLowerCase raw"
    by (simp add: tokenize_def spec_tokenize_name_def split_upper_pieces
        filter_map_nonempty [of toLowerCase, OF empty_only] filter_split_before_upper)
next
  have "toLowerCase [] = []" by (simp add: empty_only)
  then show "tokenize toLowerCase tokenizer_tokenize [] lang (Some ''name'') = [[]]"
    by (simp add: tokenize_def split_upper_def lookahead_upper_def)
next
  have cut: "split_upper (units ''HTTPServer'') = map units [''H'', ''T'', ''T'', ''P'', ''Server'']"
    by code_simp
  have low: "toLowerCase (units w) = ascii_toLowerCase (units w)"
    if "w \<in> set [''H'', ''T'', ''T'', ''P'', ''Server'']" for w
  proof -
    from that have "is_ascii (units w)" by (auto simp: is_ascii_def units_def)
    then show ?thesis by (rule on_ascii)
  qed
  have val: "map ascii_toLowerCase (map units [''H'', ''T'', ''T'', ''P'', ''Server'']) =
      map units [''h'', ''t'', ''t'', ''p'', ''server'']"
    by code_simp
  have "map toLowerCase (map units [''H'', ''T'', ''T'', ''P'', ''Server'']) =
      map ascii_toLowerCase (map units [''H'', ''T'', ''T'', ''P'', ''Server''])"
    using low by simp
  with cut val show "tokenize toLowerCase tokenizer_tokenize (units ''HTTPServer'') lang
      (Some ''name'') = map units [''h'', ''t'', ''t'', ''p'', ''server'']"
    by (simp add: tokenize_def)
qed

text \<open>
  The theorem with the lowering of the ASCII letters for \<open>toLowerCase\<close>, at
  \<^verbatim>\<open>fooBar\<close>, whose tokens are \<^verbatim>\<open>foo\<close> and \<^verbatim>\<open>bar\<close>.
\<close>

theorem tokenize_name_nonempty_witness:
  "tokenize ascii_toLowerCase no_tokens (units ''fooBar'') None (Some ''name'') =
     spec_tokenize_name ascii_toLowerCase (units ''fooBar'') \<and>
   spec_tokenize_name ascii_toLowerCase (units ''fooBar'') = map units [''foo'', ''bar''] \<and>
   tokenize ascii_toLowerCase no_tokens (units ''HTTPServer'') None (Some ''name'') =
     map units [''h'', ''t'', ''t'', ''p'', ''server'']"
proof -
  have e: "(ascii_toLowerCase s = []) = (s = [])" for s
    by (simp add: ascii_toLowerCase_def)
  have ne: "units ''fooBar'' \<noteq> []" by (simp add: units_def)
  have ev: "spec_tokenize_name ascii_toLowerCase (units ''fooBar'') = map units [''foo'', ''bar'']"
    by code_simp
  from tokenize_name_nonempty [of ascii_toLowerCase "units ''fooBar''" no_tokens None, OF e]
    ne ev
  show ?thesis by simp
qed

text \<open>
  The claim as first stated fails at the empty string: the code returns the empty piece
  (the lowercase of the empty string is the empty string), and dropping the empty
  pieces leaves nothing. And it fails for an uppercase letter beyond \<^verbatim>\<open>A-Z\<close>: the string
  of the code units 97, 201, 98 (a capital E with an acute accent between \<^verbatim>\<open>a\<close> and
  \<^verbatim>\<open>b\<close>) is not cut before the capital.
\<close>

theorem tokenize_name_empty_counterexample:
  "tokenize ascii_toLowerCase no_tokens [] None (Some ''name'') = [[]] \<and>
   spec_tokenize_name ascii_toLowerCase [] = [] \<and>
   split_upper [97, 201, 98] = [[97, 201, 98]] \<and>
   length (tokenize ascii_toLowerCase no_tokens [97, 201, 98] None (Some ''name'')) = 1"
proof -
  have "split_upper [97, 201, 98] = [[97, 201, 98]]"
    by code_simp
  then show ?thesis
    by (simp add: tokenize_def split_upper_def lookahead_upper_def ascii_toLowerCase_def
        spec_tokenize_name_def)
qed

subsection \<open>The reconciler\<close>

lemma item_display_none [simp]:
  "(item_display M n = Some ''none'') = (\<not> array_includes M n)"
  by (simp add: item_display_def)

lemma section_display_none [simp]:
  "(section_display M q s = Some ''none'') =
   list_all (\<lambda>x. \<not> array_includes M (data_name x))
     (elem_getElementsByClassName q s ''namespaceItem'')"
  by (simp add: section_display_def)

text \<open>The definitions that evaluate a run of the reconciler on a concrete page.\<close>

lemmas reconcile_eval =
  doc_getElementsByClassName_def elem_getElementsByClassName_def all_elements_def
  has_class_def same_class_def ascii_lower_char_def
  reconcile_flat_def reconcile_sect_def toggle_item_def toggle_section_def count_item_def
  setProperty_display_def removeProperty_display_def hidden_def no_styles_def

text \<open>
  The two ways of comparing class names, on the page whose section is of class
  \<^verbatim>\<open>Section\<close>: in quirks mode it is a section, and is hidden with its item when no name
  matches; in no-quirks mode it is none, and nothing is touched.
\<close>

lemma class_names_by_mode:
  "doc_getElementsByClassName (doc_capital True) ''section'' = [section_capital]"
  "doc_getElementsByClassName (doc_capital False) ''section'' = []"
  "hidden (reconcile_sect [] (doc_capital True)) section_capital"
  "hidden (reconcile_sect [] (doc_capital True)) item_fooBar"
  "\<not> hidden (reconcile_sect [] (doc_capital False)) section_capital"
  "\<not> hidden (reconcile_sect [] (doc_capital False)) item_fooBar"
  by (simp_all add: reconcile_eval doc_capital_def section_capital_def item_fooBar_def)

text \<open>The elements of the concrete pages.\<close>

lemma doc_example_elements:
  "unique_idents doc_example"
  "doc_getElementsByClassName doc_example ''namespaceItem'' = [item_fooBar, item_baz, item_qux]"
  "doc_getElementsByClassName doc_example ''section'' = [section_mod]"
  "elem_getElementsByClassName True section_mod ''namespaceItem'' = [item_fooBar, item_baz]"
  "descendants section_mod = [item_fooBar, item_baz]"
  "quirks doc_example"
  by (simp_all add: unique_idents_def doc_getElementsByClassName_def all_elements_def
      elem_getElementsByClassName_def has_class_def same_class_def ascii_lower_char_def doc_example_def section_mod_def item_fooBar_def item_baz_def
      item_qux_def)

lemma doc_heading_elements:
  "unique_idents doc_heading"
  "doc_getElementsByClassName doc_heading ''section'' = [section_heading]"
  "elem_getElementsByClassName True section_heading ''namespaceItem'' = [item_fooBar]"
  "quirks doc_heading"
  "heading_mod \<in> set (all_elements doc_heading)"
  "\<not> has_class True ''section'' heading_mod"
  by (simp_all add: unique_idents_def doc_getElementsByClassName_def all_elements_def
      elem_getElementsByClassName_def has_class_def same_class_def ascii_lower_char_def doc_heading_def section_heading_def heading_mod_def item_fooBar_def)

text \<open>
  Claim C3, as amended. A namespace item is an element that
  \<^verbatim>\<open>getElementsByClassName("namespaceItem")\<close> returns, a section one that
  \<^verbatim>\<open>getElementsByClassName("section")\<close> returns. In a document (no two elements share
  an identity), reconciling with the names \<open>M\<close> leaves the \<^verbatim>\<open>display\<close> of a namespace
  item removed when its \<^verbatim>\<open>data-name\<close> is in \<open>M\<close> and set to \<^verbatim>\<open>none\<close> otherwise, so that
  reconciling with no name hides it:
  \<^item> in the flat variant, for every namespace item of the document;
  \<^item> in the sectioned variant, for every namespace item that stands below a section
    and is not a section itself.
\<close>

theorem reconcile_items_follow_names:
  assumes u: "unique_idents doc"
  shows "(\<forall>e\<in>set (doc_getElementsByClassName doc ''namespaceItem'').
            display (reconcile_flat M doc) (ident e) =
              (if array_includes M (data_name e) then None else Some ''none'') \<and>
            hidden (reconcile_flat [] doc) e) \<and>
         (\<forall>s\<in>set (doc_getElementsByClassName doc ''section'').
            \<forall>e\<in>set (elem_getElementsByClassName (quirks doc) s ''namespaceItem'').
              \<not> has_class (quirks doc) ''section'' e \<longrightarrow>
                display (reconcile_sect M doc) (ident e) =
                  (if array_includes M (data_name e) then None else Some ''none'') \<and>
                hidden (reconcile_sect [] doc) e)"
proof (intro conjI ballI impI)
  fix e assume e: "e \<in> set (doc_getElementsByClassName doc ''namespaceItem'')"
  show "display (reconcile_flat M doc) (ident e) =
      (if array_includes M (data_name e) then None else Some ''none'')"
    using reconcile_flat_at [OF u e] by (simp add: item_display_def)
  show "hidden (reconcile_flat [] doc) e"
    using reconcile_flat_at [OF u e, of "[]"]
    by (cases "data_name e") (simp_all add: hidden_def item_display_def)
next
  fix s e
  assume s: "s \<in> set (doc_getElementsByClassName doc ''section'')"
    and e: "e \<in> set (elem_getElementsByClassName (quirks doc) s ''namespaceItem'')"
    and ns: "\<not> has_class (quirks doc) ''section'' e"
  have ein: "e \<in> set (all_elements doc)"
    using items_in_doc [OF sections_in_doc [OF s] e] .
  have at: "display (reconcile_sect M' doc) (ident e) = item_display M' (data_name e)" for M'
    using reconcile_sect_at [OF u ein ns, of M'] s e by auto
  show "display (reconcile_sect M doc) (ident e) =
      (if array_includes M (data_name e) then None else Some ''none'')"
    using at [of M] by (simp add: item_display_def)
  show "hidden (reconcile_sect [] doc) e"
    using at [of "[]"] by (cases "data_name e") (simp_all add: hidden_def item_display_def)
qed

text \<open>
  The theorem on the page with one section, reconciled with the name \<^verbatim>\<open>baz\<close>: the item
  \<^verbatim>\<open>fooBar\<close> is hidden and the item \<^verbatim>\<open>baz\<close> is shown, in both variants.
\<close>

theorem reconcile_items_follow_names_witness:
  "unique_idents doc_example \<and>
   display (reconcile_flat [''baz''] doc_example) (ident item_fooBar) = Some ''none'' \<and>
   display (reconcile_flat [''baz''] doc_example) (ident item_baz) = None \<and>
   display (reconcile_sect [''baz''] doc_example) (ident item_fooBar) = Some ''none'' \<and>
   display (reconcile_sect [''baz''] doc_example) (ident item_baz) = None \<and>
   hidden (reconcile_sect [] doc_example) item_baz"
proof -
  have ns: "\<not> has_class True ''section'' item_fooBar" "\<not> has_class True ''section'' item_baz"
    by (simp_all add: has_class_def same_class_def ascii_lower_char_def
        item_fooBar_def item_baz_def)
  have id: "ident item_fooBar = 3" "ident item_baz = 4" "ident item_qux = 5"
    "data_name item_fooBar = Some ''fooBar''" "data_name item_baz = Some ''baz''"
    by (simp_all add: item_fooBar_def item_baz_def item_qux_def)
  show ?thesis
    using reconcile_items_follow_names [OF doc_example_elements(1), of "[''baz'']"]
      doc_example_elements(1) ns
    by (simp add: doc_example_elements(2-) id)
qed

text \<open>
  The claim as first stated fails in the sectioned variant, in two ways. On the page
  whose only item stands outside of any section, reconciling with no name leaves the
  item as it was, not hidden. On the page whose section holds an item that is a section
  as well, reconciling with the name of that item ends with the item hidden, as a
  section without items, although its name is among the hits.
\<close>

theorem reconcile_sect_skips_item_counterexample:
  "item_alone \<in> set (doc_getElementsByClassName doc_no_section ''namespaceItem'') \<and>
   \<not> hidden (reconcile_sect [] doc_no_section) item_alone \<and>
   item_section \<in> set (elem_getElementsByClassName (quirks doc_item_section) section_outer
                         ''namespaceItem'') \<and>
   array_includes [''foo''] (data_name item_section) \<and>
   hidden (reconcile_sect [''foo''] doc_item_section) item_section"
  by (simp add: reconcile_eval doc_no_section_def item_alone_def doc_item_section_def
      section_outer_def item_section_def)

text \<open>
  Claim C4, as amended. In the sectioned variant, after reconciling a document with any
  names \<open>M\<close>, a section none of whose namespace items is a section itself is hidden if
  and only if all the namespace items below it are hidden; when it is not hidden its
  \<^verbatim>\<open>display\<close> is removed. (The namespace items of a section are the namespace items
  among its descendants, as the loop reads them.)
\<close>

theorem section_hidden_iff_items_hidden:
  assumes u: "unique_idents doc"
    and s: "s \<in> set (doc_getElementsByClassName doc ''section'')"
    and ns: "\<forall>e\<in>set (elem_getElementsByClassName (quirks doc) s ''namespaceItem'').
               \<not> has_class (quirks doc) ''section'' e"
  shows "hidden (reconcile_sect M doc) s =
           (\<forall>e\<in>set (elem_getElementsByClassName (quirks doc) s ''namespaceItem'').
              hidden (reconcile_sect M doc) e) \<and>
         (\<not> hidden (reconcile_sect M doc) s \<longrightarrow>
            display (reconcile_sect M doc) (ident s) = None)"
proof -
  let ?items = "elem_getElementsByClassName (quirks doc) s ''namespaceItem''"
  have item: "hidden (reconcile_sect M doc) e = (\<not> array_includes M (data_name e))"
    if e: "e \<in> set ?items" for e
  proof -
    have ein: "e \<in> set (all_elements doc)"
      using items_in_doc [OF sections_in_doc [OF s] e] .
    have "display (reconcile_sect M doc) (ident e) = item_display M (data_name e)"
      using reconcile_sect_at [OF u ein, of M] ns s e by auto
    then show ?thesis by (simp add: hidden_def)
  qed
  have sec: "display (reconcile_sect M doc) (ident s) = section_display M (quirks doc) s"
    using reconcile_sect_section [OF u s] .
  have "hidden (reconcile_sect M doc) s =
      list_all (\<lambda>x. \<not> array_includes M (data_name x)) ?items"
    using sec by (simp add: hidden_def)
  also have "\<dots> = (\<forall>e\<in>set ?items. hidden (reconcile_sect M doc) e)"
    using item by (simp add: list_all_iff)
  finally have 1: "hidden (reconcile_sect M doc) s =
      (\<forall>e\<in>set ?items. hidden (reconcile_sect M doc) e)" .
  have 2: "\<not> hidden (reconcile_sect M doc) s \<longrightarrow>
      display (reconcile_sect M doc) (ident s) = None"
    using sec by (simp add: hidden_def section_display_def)
  from 1 2 show ?thesis by blast
qed

text \<open>
  The theorem on the page with one section: reconciled with the name \<^verbatim>\<open>qux\<close>, which
  neither item of the section carries, the section is hidden; reconciled with
  \<^verbatim>\<open>baz\<close> it is shown.
\<close>

theorem section_hidden_iff_items_hidden_witness:
  "hidden (reconcile_sect [''qux''] doc_example) section_mod \<and>
   hidden (reconcile_sect [''qux''] doc_example) item_fooBar \<and>
   hidden (reconcile_sect [''qux''] doc_example) item_baz \<and>
   \<not> hidden (reconcile_sect [''baz''] doc_example) item_baz \<and>
   \<not> hidden (reconcile_sect [''baz''] doc_example) section_mod \<and>
   display (reconcile_sect [''baz''] doc_example) (ident section_mod) = None"
proof -
  have s: "section_mod \<in> set (doc_getElementsByClassName doc_example ''section'')"
    by (simp only: doc_example_elements) simp
  have ns: "\<forall>e\<in>set (elem_getElementsByClassName (quirks doc_example) section_mod
        ''namespaceItem''). \<not> has_class (quirks doc_example) ''section'' e"
    by (simp add: doc_example_elements(4,6))
      (simp add: has_class_def same_class_def ascii_lower_char_def
        item_fooBar_def item_baz_def)
  note th = section_hidden_iff_items_hidden [OF doc_example_elements(1) s ns]
  have a: "hidden (reconcile_sect [''qux''] doc_example) item_fooBar"
    "hidden (reconcile_sect [''qux''] doc_example) item_baz"
    "\<not> hidden (reconcile_sect [''baz''] doc_example) item_baz"
    by (simp_all add: reconcile_eval doc_example_def section_mod_def item_fooBar_def
        item_baz_def item_qux_def)
  show ?thesis
    using th [of "[''qux'']"] th [of "[''baz'']"] a
    by (simp add: doc_example_elements(4,6))
qed

text \<open>
  The claim as first stated fails on the page whose section holds an item that is a
  section as well: reconciled with the name of that item, the item is first shown as an
  item of the outer section, which is shown for it, and then hidden as a section
  without items. The outer section ends shown with all its items hidden. And the items
  of a section are not its children only: on the page whose section holds its item
  inside a wrapper, the section has no namespace item among its children, and it is
  shown when the name of the wrapped item is among the hits.
\<close>

theorem section_shown_items_hidden_counterexample:
  "section_outer \<in> set (doc_getElementsByClassName doc_item_section ''section'') \<and>
   list_all (hidden (reconcile_sect [''foo''] doc_item_section))
     (elem_getElementsByClassName (quirks doc_item_section) section_outer ''namespaceItem'') \<and>
   \<not> hidden (reconcile_sect [''foo''] doc_item_section) section_outer \<and>
   section_wrapping \<in> set (doc_getElementsByClassName doc_wrapping ''section'') \<and>
   filter (has_class (quirks doc_wrapping) ''namespaceItem'') (children section_wrapping) = [] \<and>
   \<not> hidden (reconcile_sect [''baz''] doc_wrapping) section_wrapping"
  by (simp add: reconcile_eval doc_item_section_def section_outer_def item_section_def
      doc_wrapping_def section_wrapping_def item_baz_def)

text \<open>
  Claim C5. Reconciling is idempotent: for every document and all names \<open>M\<close>,
  reconciling twice in a row with \<open>M\<close> gives the same document as reconciling once, and
  so the same visible elements. This holds in the flat and in the sectioned variant.
\<close>

theorem reconcile_idempotent:
  "reconcile_flat M (reconcile_flat M doc) = reconcile_flat M doc \<and>
   visibleSet (reconcile_flat M (reconcile_flat M doc)) = visibleSet (reconcile_flat M doc) \<and>
   reconcile_sect M (reconcile_sect M doc) = reconcile_sect M doc \<and>
   visibleSet (reconcile_sect M (reconcile_sect M doc)) = visibleSet (reconcile_sect M doc)"
proof -
  have f: "reconcile_flat M (reconcile_flat M doc) = reconcile_flat M doc"
    by (simp add: reconcile_flat_def doc_getElementsByClassName_def all_elements_def
        fold_toggle_item_idem)
  have g: "reconcile_sect M (reconcile_sect M doc) = reconcile_sect M doc"
    by (simp add: reconcile_sect_def doc_getElementsByClassName_def all_elements_def
        fold_toggle_section_idem)
  show ?thesis by (simp only: f g)
qed

text \<open>
  The theorem on the page with one section and the name \<^verbatim>\<open>baz\<close>: in the flat variant
  the item \<^verbatim>\<open>baz\<close> alone stays visible beside the elements that are no items, in the
  sectioned variant the item outside of the section as well.
\<close>

theorem reconcile_idempotent_witness:
  "visibleSet (reconcile_flat [''baz''] (reconcile_flat [''baz''] doc_example)) =
     [documentElement doc_example, Element 1 [] None [section_mod, item_qux], section_mod,
      item_baz] \<and>
   visibleSet (reconcile_sect [''baz''] (reconcile_sect [''baz''] doc_example)) =
     [documentElement doc_example, Element 1 [] None [section_mod, item_qux], section_mod,
      item_baz, item_qux]"
proof -
  have "visibleSet (reconcile_flat [''baz''] doc_example) =
     [documentElement doc_example, Element 1 [] None [section_mod, item_qux], section_mod,
      item_baz]"
    by (simp add: visibleSet_def reconcile_eval doc_example_def section_mod_def
        item_fooBar_def item_baz_def item_qux_def)
  moreover have "visibleSet (reconcile_sect [''baz''] doc_example) =
     [documentElement doc_example, Element 1 [] None [section_mod, item_qux], section_mod,
      item_baz, item_qux]"
    by (simp add: visibleSet_def reconcile_eval doc_example_def section_mod_def
        item_fooBar_def item_baz_def item_qux_def)
  ultimately show ?thesis
    using reconcile_idempotent [of "[''baz'']" doc_example] by simp
qed

text \<open>
  Claim C10, as amended. In the sectioned variant, reconciling a document with any names
  \<open>M\<close> touches the sections and the namespace items below a section only: every element
  that is no section and no namespace item below a section keeps its \<^verbatim>\<open>display\<close>. So a
  namespace item that no section contains, and that is not a section itself, keeps its
  visibility whether or not its name is in \<open>M\<close>.
\<close>

theorem reconcile_sect_frame:
  assumes u: "unique_idents doc"
    and e: "e \<in> set (all_elements doc)"
    and ns: "\<not> has_class (quirks doc) ''section'' e"
    and out: "\<forall>s\<in>set (doc_getElementsByClassName doc ''section'').
                e \<notin> set (descendants s) \<or> \<not> has_class (quirks doc) ''namespaceItem'' e"
  shows "display (reconcile_sect M doc) (ident e) = display doc (ident e) \<and>
         hidden (reconcile_sect M doc) e = hidden doc e"
  using reconcile_sect_at [OF u e ns, of M] out
  by (auto simp: elem_getElementsByClassName_def hidden_def)

text \<open>
  The theorem on the page with one section, for the item \<^verbatim>\<open>qux\<close>, which stands outside
  of the section: it stays visible when the page is reconciled with no name, and when
  it is reconciled with its own name. And on the page whose section has a heading, for
  the heading, which is no namespace item: it stays visible when the page is reconciled
  with no name.
\<close>

theorem reconcile_sect_frame_witness:
  "item_qux \<in> set (doc_getElementsByClassName doc_example ''namespaceItem'') \<and>
   \<not> hidden doc_example item_qux \<and>
   \<not> hidden (reconcile_sect [] doc_example) item_qux \<and>
   \<not> hidden (reconcile_sect [''qux''] doc_example) item_qux \<and>
   heading_mod \<in> set (descendants section_heading) \<and>
   \<not> hidden doc_heading heading_mod \<and>
   \<not> hidden (reconcile_sect [] doc_heading) heading_mod"
proof -
  have e: "item_qux \<in> set (all_elements doc_example)"
    by (simp add: all_elements_def doc_example_def)
  have ns: "\<not> has_class (quirks doc_example) ''section'' item_qux"
    by (simp add: has_class_def same_class_def ascii_lower_char_def item_qux_def
        doc_example_elements(6))
  have out: "\<forall>s\<in>set (doc_getElementsByClassName doc_example ''section'').
      item_qux \<notin> set (descendants s) \<or>
      \<not> has_class (quirks doc_example) ''namespaceItem'' item_qux"
    by (simp add: doc_example_elements(3,5)) (simp add: item_fooBar_def item_baz_def item_qux_def)
  have h: "\<not> hidden doc_example item_qux"
    by (simp add: hidden_def doc_example_def no_styles_def)
  have ns': "\<not> has_class (quirks doc_heading) ''section'' heading_mod"
    by (simp add: doc_heading_elements)
  have out': "\<forall>s\<in>set (doc_getElementsByClassName doc_heading ''section'').
      heading_mod \<notin> set (descendants s) \<or>
      \<not> has_class (quirks doc_heading) ''namespaceItem'' heading_mod"
    by (simp add: has_class_def same_class_def ascii_lower_char_def heading_mod_def
        doc_heading_elements(4))
  have h': "\<not> hidden doc_heading heading_mod"
    by (simp add: hidden_def doc_heading_def no_styles_def)
  have d: "heading_mod \<in> set (descendants section_heading)"
    by (simp add: section_heading_def)
  show ?thesis
    using reconcile_sect_frame [OF doc_example_elements(1) e ns out, of "[]"]
      reconcile_sect_frame [OF doc_example_elements(1) e ns out, of "[''qux'']"] h
      reconcile_sect_frame [OF doc_heading_elements(1) doc_heading_elements(5) ns' out',
        of "[]"] h' d
    by (simp add: doc_example_elements(2))
qed

text \<open>
  The claim as first stated fails on the page where an element of both classes stands
  outside of any section: it is a namespace item, no section contains it, and
  reconciling hides it, as a section without items, although its name is among the hits.
\<close>

theorem reconcile_sect_frame_counterexample:
  "item_section \<in> set (doc_getElementsByClassName doc_both_classes ''namespaceItem'') \<and>
   \<not> (\<exists>s\<in>set (doc_getElementsByClassName doc_both_classes ''section'').
        item_section \<in> set (descendants s)) \<and>
   \<not> hidden doc_both_classes item_section \<and>
   hidden (reconcile_sect [''foo''] doc_both_classes) item_section"
  by (simp add: reconcile_eval doc_both_classes_def item_section_def)

subsection \<open>The selection and the keyboard\<close>

lemma step_flat_lower_bound:
  "- 1 \<le> selectionIdx s \<Longrightarrow> - 1 \<le> selectionIdx (step_flat search props ev s)"
  by (cases ev)
    (auto simp: step_flat_def onInput_flat_def onKeyUp_flat_def Let_def
      split: option.splits)

lemma run_flat_lower_bound:
  "- 1 \<le> selectionIdx s \<Longrightarrow> - 1 \<le> selectionIdx (run_flat search props evs s)"
  unfolding run_flat_def
  by (induction evs arbitrary: s) (simp_all add: step_flat_lower_bound)

text \<open>
  The signal \<^verbatim>\<open>results\<close> is never given a hit list (the handler of the input stores the
  hits in its local array): from mount on it stays empty.
\<close>

lemma results_signal_stays_empty:
  "results s = [] \<Longrightarrow> results (run_flat search props evs s) = []"
  unfolding run_flat_def
proof (induction evs arbitrary: s)
  case Nil
  then show ?case by simp
next
  case (Cons ev evs)
  have "results (step_flat search props ev s) = []"
    using Cons.prems
    by (cases ev)
      (auto simp: step_flat_def onInput_flat_def onKeyUp_flat_def Let_def
        split: option.splits)
  then show ?case by (simp add: Cons.IH)
qed

text \<open>
  Claim C6, as amended. After every sequence of input and keyboard events
  \<^verbatim>\<open>selectionIdx\<close> is at least \<open>-1\<close>. From a state where \<^verbatim>\<open>selectionIdx\<close> is in the range
  from \<open>-1\<close> to the number of result records less one:
  \<^item> ArrowDown, Enter and an input event with a non-empty query leave it in that range;
  \<^item> an input event with the empty query empties the result records and keeps
    \<^verbatim>\<open>selectionIdx\<close>, so it leaves it in the range exactly when \<^verbatim>\<open>selectionIdx\<close> is \<open>-1\<close>,
    as it is whenever there was no result record;
  \<^item> ArrowUp sets it to the larger of \<open>0\<close> and \<^verbatim>\<open>selectionIdx - 1\<close>, so it leaves it in the
    range exactly when there is a result record; when there is none it sets it to \<open>0\<close>.
\<close>

theorem selection_range_by_operation:
  assumes inv: "selection_in_range s"
  shows "selection_in_range (state_after (onKeyUp_flat props ''ArrowDown'' s)) \<and>
         selection_in_range (state_after (onKeyUp_flat props ''Enter'' s)) \<and>
         (v \<noteq> [] \<longrightarrow> selection_in_range (fst (onInput_flat search v s))) \<and>
         results (fst (onInput_flat search [] s)) = [] \<and>
         selectionIdx (fst (onInput_flat search [] s)) = selectionIdx s \<and>
         selection_in_range (fst (onInput_flat search [] s)) = (selectionIdx s = - 1) \<and>
         (results s = [] \<longrightarrow> selection_in_range (fst (onInput_flat search v s))) \<and>
         selectionIdx (state_after (onKeyUp_flat props ''ArrowUp'' s)) =
           max 0 (selectionIdx s - 1) \<and>
         selection_in_range (state_after (onKeyUp_flat props ''ArrowUp'' s)) =
           (results s \<noteq> []) \<and>
         (results s = [] \<longrightarrow>
            selectionIdx (state_after (onKeyUp_flat props ''ArrowUp'' s)) = 0) \<and>
         - 1 \<le> selectionIdx (run_flat search props evs s)"
proof (intro conjI impI)
  show "selection_in_range (state_after (onKeyUp_flat props ''ArrowDown'' s))"
    using inv by (auto simp: selection_in_range_def onKeyUp_flat_def)
  show "selection_in_range (state_after (onKeyUp_flat props ''Enter'' s))"
    using inv by (auto simp: selection_in_range_def onKeyUp_flat_def split: option.splits)
  show nonempty: "selection_in_range (fst (onInput_flat search v s))" if "v \<noteq> []"
    using inv that
    by (auto simp: selection_in_range_def onInput_flat_def Let_def split: option.splits)
  show "results (fst (onInput_flat search [] s)) = []"
    by (simp add: onInput_flat_def)
  show "selectionIdx (fst (onInput_flat search [] s)) = selectionIdx s"
    by (simp add: onInput_flat_def)
  show empty: "selection_in_range (fst (onInput_flat search [] s)) = (selectionIdx s = - 1)"
    using inv by (auto simp: selection_in_range_def onInput_flat_def)
  show "selection_in_range (fst (onInput_flat search v s))" if "results s = []"
  proof (cases "v = []")
    case True
    from inv that have "selectionIdx s = - 1" by (simp add: selection_in_range_def)
    with empty True show ?thesis by simp
  next
    case False
    then show ?thesis by (rule nonempty)
  qed
  show "selectionIdx (state_after (onKeyUp_flat props ''ArrowUp'' s)) =
      max 0 (selectionIdx s - 1)"
    by (simp add: onKeyUp_flat_def)
  show "selection_in_range (state_after (onKeyUp_flat props ''ArrowUp'' s)) =
      (results s \<noteq> [])"
  proof (cases "results s = []")
    case True
    with inv show ?thesis by (auto simp: selection_in_range_def onKeyUp_flat_def)
  next
    case False
    then have "0 < length (results s)" by simp
    with inv False show ?thesis
      by (auto simp: selection_in_range_def onKeyUp_flat_def)
  qed
  show "selectionIdx (state_after (onKeyUp_flat props ''ArrowUp'' s)) = 0"
    if "results s = []"
    using inv that by (auto simp: selection_in_range_def onKeyUp_flat_def)
  show "- 1 \<le> selectionIdx (run_flat search props evs s)"
    using inv by (intro run_flat_lower_bound) (simp add: selection_in_range_def)
qed

text \<open>
  The theorem at the state after initialization with three result records, the second
  selected: ArrowDown and ArrowUp select the third and the first; a query that finds
  the item \<^verbatim>\<open>baz\<close> runs to its end and leaves no selection; the empty query empties the
  records and leaves the selection beyond them.
\<close>

theorem selection_range_by_operation_witness:
  "selection_in_range ready_three \<and>
   selection_in_range (state_after (onKeyUp_flat props_fs ''ArrowDown'' ready_three)) \<and>
   selectionIdx (state_after (onKeyUp_flat props_fs ''ArrowUp'' ready_three)) = 0 \<and>
   selection_in_range (state_after (onKeyUp_flat props_fs ''ArrowUp'' ready_three)) \<and>
   snd (onInput_flat search_baz ''b'' ready_three) = None \<and>
   selection_in_range (fst (onInput_flat search_baz ''b'' ready_three)) \<and>
   \<not> selection_in_range (fst (onInput_flat search_baz [] ready_three))"
proof -
  have inv: "selection_in_range ready_three"
    by (simp add: selection_in_range_def ready_three_def three_records_def)
  have ne: "results ready_three \<noteq> []"
    by (simp add: ready_three_def three_records_def)
  have idx: "selectionIdx ready_three = 1"
    by (simp add: ready_three_def)
  have ok: "snd (onInput_flat search_baz ''b'' ready_three) = None"
    by (simp add: onInput_flat_def search_baz_def ready_three_def Let_def)
  show ?thesis
    using selection_range_by_operation [OF inv, of props_fs "''b''" search_baz "[]"]
      inv ne idx ok
    by simp
qed

text \<open>
  The claim as first stated fails in two ways. Right after mount, with no record and no
  selection, one ArrowUp sets \<^verbatim>\<open>selectionIdx\<close> to \<open>0\<close>, which is no index of the empty
  list. And from a state with three records, the second selected (a state in the
  range; the signal holds no record in a run from mount), the empty query empties the
  records and keeps the selection.
\<close>

theorem selection_leaves_range_counterexample:
  "selection_in_range initial_flat \<and>
   \<not> selection_in_range
       (run_flat search_nothing props_fs [KeyUpEvent ''ArrowUp''] initial_flat) \<and>
   selection_in_range ready_three \<and>
   \<not> selection_in_range (fst (onInput_flat search_baz [] ready_three))"
  by (simp add: selection_in_range_def initial_flat_def run_flat_def step_flat_def
      onKeyUp_flat_def onInput_flat_def ready_three_def three_records_def)

text \<open>
  Claim C7, as amended. With three result records and \<^verbatim>\<open>selectionIdx\<close> at \<open>-1\<close>, four
  ArrowDown leave \<^verbatim>\<open>selectionIdx\<close> at \<open>2\<close> (the number of records less one), and one
  ArrowUp pressed while \<^verbatim>\<open>selectionIdx\<close> is \<open>-1\<close> sets it to \<open>0\<close>: ArrowUp never goes
  below \<open>0\<close>.
\<close>

theorem arrow_keys_clamp:
  assumes "length (results s) = 3" and "selectionIdx s = - 1"
  shows "selectionIdx
           (run_flat search props
              [KeyUpEvent ''ArrowDown'', KeyUpEvent ''ArrowDown'', KeyUpEvent ''ArrowDown'',
               KeyUpEvent ''ArrowDown''] s) = 2 \<and>
         selectionIdx (run_flat search props [KeyUpEvent ''ArrowUp''] s) = 0 \<and>
         selectionIdx (state_after (onKeyUp_flat props ''ArrowUp'' s)) = 0"
  using assms by (simp add: run_flat_def step_flat_def onKeyUp_flat_def)

text \<open>The theorem at the state with three result records and no selection.\<close>

theorem arrow_keys_clamp_witness:
  "length (results three_results) = 3 \<and> selectionIdx three_results = - 1 \<and>
   selectionIdx
     (run_flat search_nothing props_fs
        [KeyUpEvent ''ArrowDown'', KeyUpEvent ''ArrowDown'', KeyUpEvent ''ArrowDown'',
         KeyUpEvent ''ArrowDown''] three_results) = 2 \<and>
   selectionIdx (run_flat search_nothing props_fs [KeyUpEvent ''ArrowUp''] three_results) = 0"
proof -
  have l: "length (results three_results) = 3"
    by (simp add: three_results_def three_records_def)
  have i: "selectionIdx three_results = - 1"
    by (simp add: three_results_def initial_flat_def)
  from arrow_keys_clamp [OF l i, of search_nothing props_fs] l i show ?thesis by simp
qed

text \<open>
  The claim as first stated fails at that state: ArrowUp does not leave
  \<^verbatim>\<open>selectionIdx\<close> at \<open>-1\<close>.
\<close>

theorem arrow_up_from_none_counterexample:
  "length (results three_results) = 3 \<and> selectionIdx three_results = - 1 \<and>
   selectionIdx (state_after (onKeyUp_flat props_fs ''ArrowUp'' three_results)) \<noteq> - 1"
  by (simp add: three_results_def three_records_def initial_flat_def onKeyUp_flat_def)

text \<open>
  Claim C8. Enter pressed while \<^verbatim>\<open>selectionIdx\<close> is \<open>-1\<close> changes nothing and navigates
  nowhere. Enter pressed while \<^verbatim>\<open>selectionIdx\<close> is the index of a result record calls
  \<^verbatim>\<open>preventDefault\<close> and assigns to \<^verbatim>\<open>location.href\<close> exactly the address the
  specification gives for that record: the version part is there only when the version
  is not empty, and the file part is left out when the file is \<^verbatim>\<open>.\<close>.
\<close>

theorem enter_navigates_to_selected:
  "(selectionIdx s = - 1 \<longrightarrow>
      onKeyUp_flat props ''Enter'' s =
        \<lparr>state_after = s, defaultPrevented = False, location_href = None\<rparr>) \<and>
   (0 \<le> selectionIdx s \<and> selectionIdx s < int (length (results s)) \<longrightarrow>
      onKeyUp_flat props ''Enter'' s =
        \<lparr>state_after = s, defaultPrevented = True,
         location_href = Some
           (spec_symbol_url (scope props) (pkg props) (version props)
              (file' (results s ! nat (selectionIdx s)))
              (name (results s ! nat (selectionIdx s))))\<rparr>)"
  by (auto simp: onKeyUp_flat_def array_at_def spec_symbol_url_def)

text \<open>
  The theorem for the package \<^verbatim>\<open>fs\<close> of the scope \<^verbatim>\<open>std\<close> at version \<^verbatim>\<open>1.0.0\<close>: with no
  selection nothing happens; with the second record selected, of the file
  \<^verbatim>\<open>/copy.ts\<close>, and with the first, of the file \<^verbatim>\<open>.\<close>, the addresses are as follows.
\<close>

theorem enter_navigates_to_selected_witness:
  "location_href (onKeyUp_flat props_fs ''Enter'' three_results) = None \<and>
   \<not> defaultPrevented (onKeyUp_flat props_fs ''Enter'' three_results) \<and>
   onKeyUp_flat props_fs ''Enter'' (three_results\<lparr>selectionIdx := 1\<rparr>) =
     \<lparr>state_after = three_results\<lparr>selectionIdx := 1\<rparr>, defaultPrevented = True,
      location_href = Some ''/@std/fs@1.0.0/doc/copy.ts/~/copy''\<rparr> \<and>
   onKeyUp_flat props_fs ''Enter'' (three_results\<lparr>selectionIdx := 0\<rparr>) =
     \<lparr>state_after = three_results\<lparr>selectionIdx := 0\<rparr>, defaultPrevented = True,
      location_href = Some ''/@std/fs@1.0.0/doc/~/walk''\<rparr>"
proof -
  have i: "selectionIdx three_results = - 1"
    by (simp add: three_results_def initial_flat_def)
  have r: "results (three_results\<lparr>selectionIdx := k\<rparr>) = three_records" for k
    by (simp add: three_results_def)
  have u1: "spec_symbol_url (scope props_fs) (pkg props_fs) (version props_fs)
      (file' (three_records ! Suc 0)) (name (three_records ! Suc 0)) =
      ''/@std/fs@1.0.0/doc/copy.ts/~/copy''"
    by (simp add: spec_symbol_url_def props_fs_def three_records_def record_of_def)
  have u0: "spec_symbol_url (scope props_fs) (pkg props_fs) (version props_fs)
      (file' (three_records ! 0)) (name (three_records ! 0)) =
      ''/@std/fs@1.0.0/doc/~/walk''"
    by (simp add: spec_symbol_url_def props_fs_def three_records_def record_of_def)
  have l: "length three_records = 3" by (simp add: three_records_def)
  show ?thesis
    using enter_navigates_to_selected [of three_results props_fs]
      enter_navigates_to_selected [of "three_results\<lparr>selectionIdx := 1\<rparr>" props_fs]
      enter_navigates_to_selected [of "three_results\<lparr>selectionIdx := 0\<rparr>" props_fs]
    by (simp add: i r u1 u0 l)
qed

subsection \<open>Initialization and readiness\<close>

lemma step_flat_not_ready:
  "db s = None \<and> parsedSearchContent s = None \<Longrightarrow>
   db (step_flat search props ev s) = None \<and>
   parsedSearchContent (step_flat search props ev s) = None"
  by (cases ev)
    (auto simp: step_flat_def onInput_flat_def onKeyUp_flat_def Let_def
      split: option.splits)

lemma run_flat_not_ready:
  "db s = None \<and> parsedSearchContent s = None \<Longrightarrow>
   db (run_flat search props evs s) = None \<and>
   parsedSearchContent (run_flat search props evs s) = None"
  unfolding run_flat_def
proof (induction evs arbitrary: s)
  case Nil
  then show ?case by simp
next
  case (Cons ev evs)
  from step_flat_not_ready [OF Cons.prems] show ?case
    by (simp add: Cons.IH)
qed

lemma step_sect_not_ready:
  "db s = None \<and> parsedSearchContent s = None \<Longrightarrow>
   db (step_sect search props ev s) = None \<and>
   parsedSearchContent (step_sect search props ev s) = None"
  by (cases ev)
    (auto simp: step_sect_def onInput_sect_def onKeyUp_sect_def Let_def
      split: option.splits)

lemma run_sect_not_ready:
  "db s = None \<and> parsedSearchContent s = None \<Longrightarrow>
   db (run_sect search props evs s) = None \<and>
   parsedSearchContent (run_sect search props evs s) = None"
  unfolding run_sect_def
proof (induction evs arbitrary: s)
  case Nil
  then show ?case by simp
next
  case (Cons ev evs)
  from step_sect_not_ready [OF Cons.prems] show ?case
    by (simp add: Cons.IH)
qed

text \<open>
  Claim C9. When the content is fetched and the response has \<^verbatim>\<open>ok\<close> false, the effect
  logs the response with \<^verbatim>\<open>console.error\<close> and returns with every signal as it was: no
  document is published and no index is stored. It has issued the one request and
  issues no other. From the state at mount no sequence of input and keyboard events
  stores an index or a document afterwards, in either variant: the widget never
  becomes ready.
\<close>

theorem failed_fetch_aborts_initialization:
  assumes req: "fetch_request props = Some req"
    and failed: "\<not> ok (api_get req)"
  shows "initialize api_get parseFromString props s =
           \<lparr>final = s, console_error = [api_get req], requests = [req]\<rparr> \<and>
         db (run_flat search props evs
               (final (initialize api_get parseFromString props initial_flat))) = None \<and>
         parsedSearchContent (run_flat search props evs
               (final (initialize api_get parseFromString props initial_flat))) = None \<and>
         db (run_sect search props evs
               (final (initialize api_get parseFromString props initial_sect))) = None \<and>
         parsedSearchContent (run_sect search props evs
               (final (initialize api_get parseFromString props initial_sect))) = None"
proof -
  have i: "initialize api_get parseFromString props t =
      \<lparr>final = t, console_error = [api_get req], requests = [req]\<rparr>" for t :: "'b signals_scheme"
    using req failed by (simp add: initialize_def Let_def)
  have f: "db initial_flat = None \<and> parsedSearchContent initial_flat = None"
    by (simp add: initial_flat_def)
  have g: "db initial_sect = None \<and> parsedSearchContent initial_sect = None"
    by (simp add: initial_sect_def)
  show ?thesis
    using run_flat_not_ready [OF f, of search props evs]
      run_sect_not_ready [OF g, of search props evs]
    by (simp add: i)
qed

text \<open>
  The theorem for a page that passes no content and a fetch that fails: the request is
  for the version \<^verbatim>\<open>1.0.0\<close>, the response is logged, the state at mount is kept, and
  typing a query afterwards stores no index.
\<close>

theorem failed_fetch_aborts_initialization_witness:
  "initialize api_get_failed parse_example props_fs initial_flat =
     \<lparr>final = initial_flat, console_error = [\<lparr>ok = False, data = None\<rparr>],
      requests = [\<lparr>req_scope = ''std'', req_pkg = ''fs'', req_version = ''1.0.0''\<rparr>]\<rparr> \<and>
   db (run_flat search_nothing props_fs [InputEvent ''walk'', KeyUpEvent ''Enter'']
         (final (initialize api_get_failed parse_example props_fs initial_flat))) = None \<and>
   db (run_sect search_nothing props_fs [InputEvent ''walk'', KeyUpEvent ''Enter'']
         (final (initialize api_get_failed parse_example props_fs initial_sect))) = None"
proof -
  have req: "fetch_request props_fs =
      Some \<lparr>req_scope = ''std'', req_pkg = ''fs'', req_version = ''1.0.0''\<rparr>"
    by (simp add: fetch_request_def props_fs_def content_given_def)
  have failed: "\<not> ok (api_get_failed
      \<lparr>req_scope = ''std'', req_pkg = ''fs'', req_version = ''1.0.0''\<rparr>)"
    by (simp add: api_get_failed_def)
  note th = failed_fetch_aborts_initialization
    [where props = props_fs and api_get = api_get_failed and s = initial_flat
       and req = "\<lparr>req_scope = ''std'', req_pkg = ''fs'', req_version = ''1.0.0''\<rparr>"
       and parseFromString = parse_example and search = search_nothing
       and evs = "[InputEvent ''walk'', KeyUpEvent ''Enter'']"]
  have e: "api_get_failed \<lparr>req_scope = ''std'', req_pkg = ''fs'', req_version = ''1.0.0''\<rparr> =
      \<lparr>ok = False, data = None\<rparr>"
    by (simp add: api_get_failed_def)
  from th [OF req failed] show ?thesis unfolding e by blast
qed

text \<open>
  Claim C1 says that the input is disabled from mount until the index and the content
  have both resolved, for ever when the fetch fails, and is never enabled while the
  index cannot be queried. The code renders \<^verbatim>\<open>disabled={!db}\<close>, and \<^verbatim>\<open>db\<close> is the signal,
  an object, not the index it holds: at mount, in both variants, \<^verbatim>\<open>db.value\<close> is
  \<^verbatim>\<open>undefined\<close> and the input is not disabled, and it is disabled in no state at all.
\<close>

theorem input_enabled_before_ready:
  "db_value initial_flat = JSUndefined \<and> input_disabled initial_flat = False \<and>
   db_value initial_sect = JSUndefined \<and> input_disabled initial_sect = False \<and>
   input_disabled s = False"
  by (simp add: input_disabled_def db_signal_def db_value_def initial_flat_def
      initial_sect_def)

end
